theory Spec2Isabelle
  imports Main "HOL-Library.Sublist"
begin

section \<open>Python values and the builtins the parser relies on\<close>

text \<open>
  A Python \<open>str\<close> is a sequence of Unicode code points, so text is a list of natural
  numbers; \<open>ascii\<close> turns an ASCII literal into such a list. The Cyrillic literals of
  \<open>sync.py\<close> are written out as code points, with a transliteration beside them.
\<close>

type_synonym ustr = "nat list"

definition ascii :: "string \<Rightarrow> ustr" where
  "ascii s = map of_char s"

text \<open>
  A cell of the grid returned by the spreadsheet API (a JSON scalar): \<open>None\<close>, a
  \<open>bool\<close>, an \<open>int\<close>, a \<open>float\<close> or a \<open>str\<close>. The type \<open>'f\<close> stands for
  Python's \<open>float\<close>.
\<close>

datatype 'f cell = CNone | CBool bool | CInt int | CFloat 'f | CStr ustr

text \<open>
  The builtins whose tables are not part of \<open>sync.py\<close> are parameters:
  \<open>str.lower\<close>, the class \<open>\d\<close> of \<open>re\<close> on text, \<open>float(s)\<close> (\<open>None\<close> when it
  raises \<open>ValueError\<close>), \<open>str(x)\<close> and \<open>x > 0\<close> on a \<open>float\<close>.
\<close>

record 'f builtins =
  str_lower :: "ustr \<Rightarrow> ustr"
  re_digit :: "nat \<Rightarrow> bool"
  float_of_str :: "ustr \<Rightarrow> 'f option"
  str_of_float :: "'f \<Rightarrow> ustr"
  float_gt0 :: "'f \<Rightarrow> bool"

text \<open>The code points that \<open>str.strip()\<close> removes (those with \<open>str.isspace\<close>).\<close>

definition isspace :: "nat \<Rightarrow> bool" where
  "isspace c \<longleftrightarrow>
     (9 \<le> c \<and> c \<le> 13) \<or> (28 \<le> c \<and> c \<le> 32) \<or> c = 133 \<or> c = 160 \<or> c = 5760 \<or>
     (8192 \<le> c \<and> c \<le> 8202) \<or> c = 8232 \<or> c = 8233 \<or> c = 8239 \<or> c = 8287 \<or> c = 12288"

definition strip :: "ustr \<Rightarrow> ustr" where
  "strip s = rev (dropWhile isspace (rev (dropWhile isspace s)))"

text \<open>\<open>str(n)\<close> for an \<open>int\<close>: a minus sign and the decimal digits.\<close>

fun digits10 :: "nat \<Rightarrow> ustr" where
  "digits10 n = (if n < 10 then [48 + n] else digits10 (n div 10) @ [48 + n mod 10])"

declare digits10.simps [simp del]

definition str_int :: "int \<Rightarrow> ustr" where
  "str_int i = (if i < 0 then 45 # digits10 (nat (- i)) else digits10 (nat i))"

fun str :: "'f builtins \<Rightarrow> 'f cell \<Rightarrow> ustr" where
  "str py CNone = ascii ''None''"
| "str py (CBool b) = (if b then ascii ''True'' else ascii ''False'')"
| "str py (CInt i) = str_int i"
| "str py (CFloat x) = str_of_float py x"
| "str py (CStr s) = s"

text \<open>\<open>isinstance(x, (int, float))\<close>; \<open>bool\<close> is a subclass of \<open>int\<close>.\<close>

fun is_number :: "'f cell \<Rightarrow> bool" where
  "is_number (CBool b) = True"
| "is_number (CInt i) = True"
| "is_number (CFloat x) = True"
| "is_number c = False"

text \<open>\<open>x > 0\<close>, which the source evaluates on numbers only.\<close>

fun gt0 :: "'f builtins \<Rightarrow> 'f cell \<Rightarrow> bool" where
  "gt0 py (CBool b) = b"
| "gt0 py (CInt i) = (0 < i)"
| "gt0 py (CFloat x) = float_gt0 py x"
| "gt0 py c = False"

text \<open>\<open>x in ("", None)\<close>.\<close>

definition is_blank :: "'f cell \<Rightarrow> bool" where
  "is_blank x \<longleftrightarrow> x = CStr [] \<or> x = CNone"

text \<open>Truth value of a variable that holds \<open>None\<close> or a \<open>str\<close>.\<close>

fun truthy :: "ustr option \<Rightarrow> bool" where
  "truthy None = False"
| "truthy (Some s) = (s \<noteq> [])"

section \<open>Cell classifiers\<close>

text \<open>
  \<open>re.match(r"^\d{2}\.\d{2}\.\d{4}$", t)\<close>: the ten-character shape, and \<open>$\<close> also
  matches just before a final newline.
\<close>

definition date_shape :: "'f builtins \<Rightarrow> ustr \<Rightarrow> bool" where
  "date_shape py t \<longleftrightarrow>
     length t = 10 \<and> re_digit py (t ! 0) \<and> re_digit py (t ! 1) \<and> t ! 2 = 46 \<and>
     re_digit py (t ! 3) \<and> re_digit py (t ! 4) \<and> t ! 5 = 46 \<and>
     re_digit py (t ! 6) \<and> re_digit py (t ! 7) \<and> re_digit py (t ! 8) \<and> re_digit py (t ! 9)"

definition re_match_date :: "'f builtins \<Rightarrow> ustr \<Rightarrow> bool" where
  "re_match_date py t \<longleftrightarrow>
     date_shape py t \<or> (t \<noteq> [] \<and> last t = 10 \<and> date_shape py (butlast t))"

definition is_valid_date_cell :: "'f builtins \<Rightarrow> 'f cell \<Rightarrow> bool" where
  "is_valid_date_cell py v =
     (case v of CStr s \<Rightarrow> re_match_date py (strip s) | _ \<Rightarrow> False)"

text \<open>
  The forbidden words, in the order of the source: itogo, sotrudniki, s, m, data,
  menedzher, f.i.o, oferty (the Russian ones in Cyrillic).
\<close>

definition forbidden :: "ustr set" where
  "forbidden =
     {[1080, 1090, 1086, 1075, 1086],
      [1089, 1086, 1090, 1088, 1091, 1076, 1085, 1080, 1082, 1080],
      ascii ''s'',
      ascii ''m'',
      [1076, 1072, 1090, 1072],
      [1084, 1077, 1085, 1077, 1076, 1078, 1077, 1088],
      [1092, 46, 1080, 46, 1086],
      [1086, 1092, 1077, 1088, 1090, 1099]}"

definition is_technical_word :: "'f builtins \<Rightarrow> 'f cell \<Rightarrow> bool" where
  "is_technical_word py val =
     (let v = strip (str_lower py (str py val)) in v \<in> forbidden \<or> v = [])"

text \<open>\<open>s.replace(",", ".")\<close>.\<close>

definition replace_comma :: "ustr \<Rightarrow> ustr" where
  "replace_comma s = map (\<lambda>c. if c = 44 then 46 else c) s"

definition safe_num :: "'f builtins \<Rightarrow> 'f cell \<Rightarrow> 'f cell" where
  "safe_num py x =
     (if is_blank x then CInt 0
      else if is_number x then x
      else (case float_of_str py (replace_comma (str py x)) of
              Some y \<Rightarrow> CFloat y
            | None \<Rightarrow> CInt 0))"

section \<open>Header locator\<close>

record header_info =
  found :: bool
  rowIdx :: int
  managerCol :: int
  timeCols :: "nat list"
  totalCol :: int
  warmCol :: int
  warmOffCol :: int
  convCol :: int

definition init_info :: header_info where
  "init_info =
     \<lparr>found = False, rowIdx = - 1, managerCol = - 1, timeCols = [],
      totalCol = - 1, warmCol = - 1, warmOffCol = - 1, convCol = - 1\<rparr>"

text \<open>
  The test on a lowercased cell text that makes it a time-interval header:
  \<open>(":" in val) and ("-" in val) and re.search(r"\d", val)\<close>.
\<close>

definition is_time_text :: "'f builtins \<Rightarrow> ustr \<Rightarrow> bool" where
  "is_time_text py val \<longleftrightarrow>
     sublist (ascii '':'') val \<and> sublist (ascii ''-'') val \<and> list_ex (re_digit py) val"

text \<open>
  The phrases looked for in a header cell: itogo ofert; zvonobot, total teplykh,
  teplykh lidov; offert iz teplykh, iz teplykh, ot quanta; konversi.
\<close>

definition kw_total :: ustr where
  "kw_total = [1080, 1090, 1086, 1075, 1086, 32, 1086, 1092, 1077, 1088, 1090]"

definition kw_warm :: "ustr list" where
  "kw_warm =
     [ascii ''zvonobot'',
      [1090, 1086, 1090, 1072, 1083, 32, 1090, 1077, 1087, 1083, 1099, 1093],
      [1090, 1077, 1087, 1083, 1099, 1093, 32, 1083, 1080, 1076, 1086, 1074]]"

definition kw_warm_off :: "ustr list" where
  "kw_warm_off =
     [[1086, 1092, 1092, 1077, 1088, 1090, 32, 1080, 1079, 32, 1090, 1077, 1087, 1083, 1099, 1093],
      [1080, 1079, 32, 1090, 1077, 1087, 1083, 1099, 1093],
      [1086, 1090, 32] @ ascii ''quanta'']"

definition kw_conv :: ustr where
  "kw_conv = [1082, 1086, 1085, 1074, 1077, 1088, 1089, 1080]"

text \<open>
  The inner loop \<open>for c in range(len(row))\<close>; its state is \<open>info\<close>, \<open>has_time\<close> and
  \<open>first_time_col\<close>.
\<close>

fun scan_cells ::
  "'f builtins \<Rightarrow> 'f cell list \<Rightarrow> nat \<Rightarrow> header_info \<times> bool \<times> int \<Rightarrow> header_info \<times> bool \<times> int"
where
  "scan_cells py [] c st = st"
| "scan_cells py (x # xs) c (info, has_time, first_time_col) =
     (let val = str_lower py (str py x);
          is_time = is_time_text py val;
          info1 = (if is_time then info\<lparr>timeCols := timeCols info @ [c]\<rparr> else info);
          first1 = (if is_time \<and> \<not> has_time then int c else first_time_col);
          has1 = (has_time \<or> is_time);
          info2 = (if sublist kw_total val then info1\<lparr>totalCol := int c\<rparr> else info1);
          info3 = (if list_ex (\<lambda>k. sublist k val) kw_warm
                   then info2\<lparr>warmCol := int c\<rparr> else info2);
          info4 = (if list_ex (\<lambda>k. sublist k val) kw_warm_off
                   then info3\<lparr>warmOffCol := int c\<rparr> else info3);
          info5 = (if sublist kw_conv val then info4\<lparr>convCol := int c\<rparr> else info4)
      in scan_cells py xs (Suc c) (info5, has1, first1))"

text \<open>The outer loop \<open>for r in range(min(10, len(data)))\<close>, left by \<open>break\<close>.\<close>

fun scan_rows :: "'f builtins \<Rightarrow> 'f cell list list \<Rightarrow> nat \<Rightarrow> header_info \<Rightarrow> header_info" where
  "scan_rows py [] r info = info"
| "scan_rows py (row # rows) r info =
     (case scan_cells py row 0 (info, False, - 1) of
        (info', has_time, first_time_col) \<Rightarrow>
          if has_time
          then info'\<lparr>found := True, rowIdx := int r, managerCol := max 0 (first_time_col - 1)\<rparr>
          else scan_rows py rows (Suc r) info')"

definition find_header_row_and_cols :: "'f builtins \<Rightarrow> 'f cell list list \<Rightarrow> header_info" where
  "find_header_row_and_cols py data =
     scan_rows py (take (min 10 (length data)) data) 0 init_info"

section \<open>Row classifier and table builder\<close>

definition has_data :: "'f builtins \<Rightarrow> 'f cell list \<Rightarrow> header_info \<Rightarrow> bool" where
  "has_data py row info =
     (let total_val = (if totalCol info > - 1 \<and> totalCol info < int (length row)
                       then safe_num py (row ! nat (totalCol info)) else CInt 0);
          warm_val = (if warmCol info > - 1 \<and> warmCol info < int (length row)
                      then safe_num py (row ! nat (warmCol info)) else CInt 0)
      in (is_number total_val \<and> gt0 py total_val) \<or> (is_number warm_val \<and> gt0 py warm_val))"

definition get_val :: "'f cell list \<Rightarrow> int \<Rightarrow> 'f cell" where
  "get_val row idx =
     (if idx \<le> - 1 \<or> idx \<ge> int (length row) then CInt 0
      else if is_blank (row ! nat idx) then CInt 0 else row ! nat idx)"

definition DEPARTMENT_TOTAL :: ustr where
  "DEPARTMENT_TOTAL = ascii ''DEPARTMENT_TOTAL''"

definition ALL_DAY :: ustr where
  "ALL_DAY = ascii ''ALL_DAY''"

definition header_record :: "'f cell list" where
  "header_record =
     map (\<lambda>s. CStr (ascii s))
       [''Date'', ''Manager'', ''Time_Interval'', ''Offers'', ''Total_Day_Offers'',
        ''Warm_Leads_Given'', ''Offers_From_Warm'', ''Conversion_Rate'']"

text \<open>
  The emission loop \<open>for time_col_idx in header["timeCols"]\<close>, appending to \<open>result\<close>.
  It runs with \<open>row_owner\<close> and \<open>current_date\<close> set.
\<close>

fun emit_loop ::
  "'f builtins \<Rightarrow> header_info \<Rightarrow> 'f cell list list \<Rightarrow> 'f cell list \<Rightarrow> ustr \<Rightarrow> ustr \<Rightarrow>
   nat list \<Rightarrow> 'f cell list list \<Rightarrow> 'f cell list list"
where
  "emit_loop py header data row current_date row_owner [] result = result"
| "emit_loop py header data row current_date row_owner (time_col_idx # rest) result =
     (let hrow = data ! nat (rowIdx header);
          time_label = (if time_col_idx < length hrow then hrow ! time_col_idx else CStr []);
          offers = (if time_col_idx < length row \<and> \<not> is_blank (row ! time_col_idx)
                    then row ! time_col_idx else CInt 0);
          total = get_val row (totalCol header);
          warm_given = get_val row (warmCol header);
          warm_off = get_val row (warmOffCol header);
          conv = get_val row (convCol header);
          result1 =
            (if row_owner = DEPARTMENT_TOTAL
             then (if time_col_idx = timeCols header ! 0
                   then result @ [[CStr current_date, CStr row_owner, CStr ALL_DAY,
                                   offers, total, warm_given, warm_off, conv]]
                   else result)
             else result @ [[CStr current_date, CStr row_owner, CStr (str py time_label),
                             offers, total, warm_given, warm_off, conv]])
      in emit_loop py header data row current_date row_owner rest result1)"

text \<open>
  The body of \<open>for i in range(header["rowIdx"] + 1, len(data))\<close> on one row; the state
  is \<open>current_date\<close> and \<open>result\<close>. A date cell is text, so \<open>current_date\<close> is \<open>None\<close>
  or a \<open>str\<close>.
\<close>

definition cell_text :: "'f cell \<Rightarrow> ustr option" where
  "cell_text v = (case v of CStr s \<Rightarrow> Some s | _ \<Rightarrow> None)"

definition classify_row ::
  "'f builtins \<Rightarrow> header_info \<Rightarrow> 'f cell list \<Rightarrow> 'f cell \<Rightarrow> bool \<Rightarrow> ustr option \<Rightarrow> ustr option"
where
  "classify_row py header row cell_val is_date current_date =
     (if is_date \<and> has_data py row header then Some DEPARTMENT_TOTAL
      else if strip (str py cell_val) = [] \<and> truthy current_date \<and> has_data py row header
      then Some DEPARTMENT_TOTAL
      else if strip (str py cell_val) \<noteq> [] \<and> \<not> is_date \<and> \<not> is_technical_word py cell_val
      then Some (strip (str py cell_val))
      else None)"

definition process_row ::
  "'f builtins \<Rightarrow> header_info \<Rightarrow> 'f cell list list \<Rightarrow> 'f cell list \<Rightarrow>
   ustr option \<times> 'f cell list list \<Rightarrow> ustr option \<times> 'f cell list list"
where
  "process_row py header data row st =
     (case st of (current_date, result) \<Rightarrow>
        let manager_col = managerCol header;
            cell_val = (if manager_col < int (length row) then row ! nat manager_col else CStr []);
            is_date = is_valid_date_cell py cell_val;
            current_date1 = (if is_date then cell_text cell_val else current_date);
            row_owner = classify_row py header row cell_val is_date current_date1
        in if truthy row_owner \<and> truthy current_date1
           then (current_date1,
                 emit_loop py header data row (the current_date1) (the row_owner)
                   (timeCols header) result)
           else (current_date1, result))"

fun rows_loop ::
  "'f builtins \<Rightarrow> header_info \<Rightarrow> 'f cell list list \<Rightarrow> 'f cell list list \<Rightarrow>
   ustr option \<times> 'f cell list list \<Rightarrow> ustr option \<times> 'f cell list list"
where
  "rows_loop py header data [] st = st"
| "rows_loop py header data (row # rows) st =
     rows_loop py header data rows (process_row py header data row st)"

text \<open>
  \<open>build_db_result\<close> returns \<open>(None, message)\<close> when no header is found (the message
  says that no time headers were found in the sheet) and \<open>(result, None)\<close> otherwise.
\<close>

datatype build_error = NoTimeHeaders

definition build_db_result :: "'f builtins \<Rightarrow> 'f cell list list \<Rightarrow> build_error + 'f cell list list" where
  "build_db_result py source_values =
     (let data = source_values;
          header = find_header_row_and_cols py data
      in if \<not> found header then Inl NoTimeHeaders
         else Inr (snd (rows_loop py header data (drop (nat (rowIdx header + 1)) data)
                          (None, [header_record]))))"

section \<open>Sync orchestrator\<close>

text \<open>
  The spreadsheet service as far as \<open>should_sync_sheet\<close> reads it, on the target
  spreadsheet: the sheet titles of \<open>get_spreadsheet_metadata\<close> and \<open>read_values\<close> of
  an A1 range. Either call may raise \<open>HttpError\<close>.
\<close>

datatype http_error = HttpError

record 'r service =
  get_spreadsheet_metadata :: "http_error + ustr list"
  read_values :: "ustr \<Rightarrow> http_error + 'r list"

definition sheet_last_row_estimate :: "'r service \<Rightarrow> ustr \<Rightarrow> http_error + nat" where
  "sheet_last_row_estimate service sheet_name =
     (case read_values service (sheet_name @ ascii ''!A:A'') of
        Inl e \<Rightarrow> Inl e
      | Inr values \<Rightarrow> Inr (length values))"

definition should_sync_sheet :: "'r service \<Rightarrow> ustr \<Rightarrow> ustr \<Rightarrow> http_error + bool" where
  "should_sync_sheet service sheet_name current_month =
     (let db_name = ascii ''DB_'' @ sheet_name in
      case get_spreadsheet_metadata service of
        Inl e \<Rightarrow> Inl e
      | Inr titles \<Rightarrow>
          if \<not> list_ex (\<lambda>t. t = db_name) titles then Inr True
          else if sublist current_month sheet_name then Inr True
          else (case sheet_last_row_estimate service db_name of
                  Inl e \<Rightarrow> Inl e
                | Inr lr \<Rightarrow> Inr (lr \<le> 1)))"

section \<open>What is known of the builtins, and an executable instance\<close>

text \<open>
  Two facts of Python about the parameters: on text made of ASCII and the basic Cyrillic
  letters (U+0410 to U+044F) \<open>str.lower\<close> works character by character, mapping A-Z and
  the Cyrillic capitals 32 code points up; and among ASCII characters \<open>\d\<close> matches
  exactly 0-9.
\<close>

definition basic_char :: "nat \<Rightarrow> bool" where
  "basic_char c \<longleftrightarrow> c < 128 \<or> (1040 \<le> c \<and> c \<le> 1103)"

definition lower_basic :: "nat \<Rightarrow> nat" where
  "lower_basic c = (if (65 \<le> c \<and> c \<le> 90) \<or> (1040 \<le> c \<and> c \<le> 1071) then c + 32 else c)"

definition python_like :: "'f builtins \<Rightarrow> bool" where
  "python_like py \<longleftrightarrow>
     (\<forall>s. list_all basic_char s \<longrightarrow> str_lower py s = map lower_basic s) \<and>
     (\<forall>c. c < 128 \<longrightarrow> re_digit py c = (48 \<le> c \<and> c \<le> 57))"

text \<open>
  An instance to run the parser on. It agrees with Python on text made of ASCII and basic
  Cyrillic characters; \<open>float\<close> is replaced by decimal fractions \<open>m / 10 ^ k\<close>, read from
  plain decimal literals such as \<open>12.5\<close>.
\<close>

datatype decimal = Decimal int nat

fun digits_val :: "ustr \<Rightarrow> nat \<Rightarrow> nat option" where
  "digits_val [] acc = Some acc"
| "digits_val (c # cs) acc =
     (if 48 \<le> c \<and> c \<le> 57 then digits_val cs (10 * acc + (c - 48)) else None)"

definition parse_unsigned :: "ustr \<Rightarrow> decimal option" where
  "parse_unsigned s =
     (let ip = takeWhile (\<lambda>c. c \<noteq> 46) s;
          rest = dropWhile (\<lambda>c. c \<noteq> 46) s;
          fp = (if rest = [] then [] else tl rest)
      in if ip = [] then None
         else (case digits_val (ip @ fp) 0 of
                 None \<Rightarrow> None
               | Some n \<Rightarrow> Some (Decimal (int n) (length fp))))"

definition parse_decimal :: "ustr \<Rightarrow> decimal option" where
  "parse_decimal s =
     (case strip s of
        [] \<Rightarrow> None
      | c # t \<Rightarrow>
          if c = 45
          then (case parse_unsigned t of
                  None \<Rightarrow> None
                | Some (Decimal m k) \<Rightarrow> Some (Decimal (- m) k))
          else parse_unsigned (c # t))"

fun pad_digits :: "nat \<Rightarrow> nat \<Rightarrow> ustr" where
  "pad_digits 0 n = []"
| "pad_digits (Suc k) n = pad_digits k (n div 10) @ [48 + n mod 10]"

fun str_decimal :: "decimal \<Rightarrow> ustr" where
  "str_decimal (Decimal m k) =
     (if m < 0 then [45] else []) @ digits10 (nat \<bar>m\<bar> div 10 ^ k) @ [46] @
     (if k = 0 then [48] else pad_digits k (nat \<bar>m\<bar> mod 10 ^ k))"

fun decimal_gt0 :: "decimal \<Rightarrow> bool" where
  "decimal_gt0 (Decimal m k) = (0 < m)"

definition ref_builtins :: "decimal builtins" where
  "ref_builtins =
     \<lparr>str_lower = map lower_basic,
      re_digit = (\<lambda>c. 48 \<le> c \<and> c \<le> 57),
      float_of_str = parse_decimal,
      str_of_float = str_decimal,
      float_gt0 = decimal_gt0\<rparr>"

section \<open>Notions used to state the properties\<close>

text \<open>
  A cell is a time-interval header when the test of the header scan holds of its
  lowercased text; \<open>time_cols_of\<close> lists the indices of such cells of a row from left to
  right; \<open>first_time_row\<close> says that \<open>r\<close> is the first scanned row that has one.
\<close>

definition is_time_cell :: "'f builtins \<Rightarrow> 'f cell \<Rightarrow> bool" where
  "is_time_cell py x = is_time_text py (str_lower py (str py x))"

definition time_cols_of :: "'f builtins \<Rightarrow> 'f cell list \<Rightarrow> nat list" where
  "time_cols_of py row = filter (\<lambda>c. is_time_cell py (row ! c)) [0..<length row]"

definition row_has_time :: "'f builtins \<Rightarrow> 'f cell list \<Rightarrow> bool" where
  "row_has_time py row = list_ex (is_time_cell py) row"

definition first_time_row :: "'f builtins \<Rightarrow> 'f cell list list \<Rightarrow> nat \<Rightarrow> bool" where
  "first_time_row py data r \<longleftrightarrow>
     r < min 10 (length data) \<and> row_has_time py (data ! r) \<and>
     (\<forall>j<r. \<not> row_has_time py (data ! j))"

text \<open>
  For the rows below the header: \<open>start_row\<close> is the first of them, \<open>manager_cell\<close> the
  cell the loop reads in the manager column, \<open>time_label\<close> and \<open>offers_at\<close> the two cells
  the emission loop reads for a time column. \<open>date_before py data i\<close> is \<open>current_date\<close>
  when the loop reaches row \<open>i\<close>, \<open>date_at\<close> its value after the date update of row \<open>i\<close>,
  \<open>owner_at\<close> the \<open>row_owner\<close> of row \<open>i\<close>, and \<open>row_records\<close> the records that the loop
  body appends for row \<open>i\<close>. \<open>emit_piece\<close> is what one pass of the emission loop appends.
\<close>

definition start_row :: "header_info \<Rightarrow> nat" where
  "start_row header = nat (rowIdx header + 1)"

definition manager_cell :: "header_info \<Rightarrow> 'f cell list \<Rightarrow> 'f cell" where
  "manager_cell header row =
     (if managerCol header < int (length row) then row ! nat (managerCol header) else CStr [])"

definition time_label :: "header_info \<Rightarrow> 'f cell list list \<Rightarrow> nat \<Rightarrow> 'f cell" where
  "time_label header data tc =
     (let hrow = data ! nat (rowIdx header) in if tc < length hrow then hrow ! tc else CStr [])"

definition offers_at :: "'f cell list \<Rightarrow> nat \<Rightarrow> 'f cell" where
  "offers_at row tc = (if tc < length row \<and> \<not> is_blank (row ! tc) then row ! tc else CInt 0)"

definition date_before :: "'f builtins \<Rightarrow> 'f cell list list \<Rightarrow> nat \<Rightarrow> ustr option" where
  "date_before py data i =
     (let header = find_header_row_and_cols py data
      in fst (rows_loop py header data
                (take (i - start_row header) (drop (start_row header) data)) (None, [])))"

definition date_at :: "'f builtins \<Rightarrow> 'f cell list list \<Rightarrow> nat \<Rightarrow> ustr option" where
  "date_at py data i =
     fst (process_row py (find_header_row_and_cols py data) data (data ! i)
            (date_before py data i, []))"

definition row_records :: "'f builtins \<Rightarrow> 'f cell list list \<Rightarrow> nat \<Rightarrow> 'f cell list list" where
  "row_records py data i =
     snd (process_row py (find_header_row_and_cols py data) data (data ! i)
            (date_before py data i, []))"

definition owner_at :: "'f builtins \<Rightarrow> 'f cell list list \<Rightarrow> nat \<Rightarrow> ustr option" where
  "owner_at py data i =
     (let header = find_header_row_and_cols py data;
          cell_val = manager_cell header (data ! i)
      in classify_row py header (data ! i) cell_val (is_valid_date_cell py cell_val)
           (date_at py data i))"

definition emit_piece ::
  "'f builtins \<Rightarrow> header_info \<Rightarrow> 'f cell list list \<Rightarrow> 'f cell list \<Rightarrow> ustr \<Rightarrow> ustr \<Rightarrow> nat \<Rightarrow>
   'f cell list list"
where
  "emit_piece py h data row d ow tc =
     (if ow = DEPARTMENT_TOTAL
      then (if tc = timeCols h ! 0
            then [[CStr d, CStr ow, CStr ALL_DAY, offers_at row tc,
                   get_val row (totalCol h), get_val row (warmCol h),
                   get_val row (warmOffCol h), get_val row (convCol h)]]
            else [])
      else [[CStr d, CStr ow, CStr (str py (time_label h data tc)), offers_at row tc,
             get_val row (totalCol h), get_val row (warmCol h),
             get_val row (warmOffCol h), get_val row (convCol h)]])"

text \<open>Example grids and an example service.\<close>

definition grid_hdr :: "decimal cell list list" where
  "grid_hdr =
     [[CStr (ascii ''Report'')],
      [CStr [], CStr (ascii ''Name''), CStr (ascii ''10:00-11:00''), CStr (ascii ''11:00-12:00'')],
      [CStr [], CStr (ascii ''05.01.2024''), CInt 1, CInt 2]]"

definition grid_hdr' :: "decimal cell list list" where
  "grid_hdr' =
     [[CStr (ascii ''Report'')],
      [CStr [], CStr (ascii ''Name''), CStr (ascii ''10:00-11:00''), CStr (ascii ''11:00-12:00'')],
      [CStr (ascii ''9:00-10:00'')], [CInt 4]]"

definition grid_none :: "decimal cell list list" where
  "grid_none = [[CStr (ascii ''Report'')], [CStr (ascii ''10-11''), CInt 7]]"

definition svc_demo :: "nat service" where
  "svc_demo =
     \<lparr>get_spreadsheet_metadata = Inr [ascii ''Settings'', ascii ''DB_March'', ascii ''DB_Old''],
      read_values = (\<lambda>r. if r = ascii ''DB_Old!A:A'' then Inr [0, 1, 2]
                         else if r = ascii ''DB_March!A:A'' then Inr [0]
                         else Inl HttpError)\<rparr>"

text \<open>
  Example grids with the header row Date, Name, 10:00-11:00 and the total-offers phrase:
  \<open>hdr_ex\<close> is the header info of that row.
\<close>

definition header_row_ex :: "'f cell list" where
  "header_row_ex =
     [CStr (ascii ''Date''), CStr (ascii ''Name''), CStr (ascii ''10:00-11:00''), CStr kw_total]"

definition hdr_ex :: header_info where
  "hdr_ex = \<lparr>found = True, rowIdx = 0, managerCol = 1, timeCols = [2],
      totalCol = 3, warmCol = - 1, warmOffCol = - 1, convCol = - 1\<rparr>"

definition grid_spec :: "'f cell list list" where
  "grid_spec = [header_row_ex, [CStr (ascii ''05.01.2024''), CStr [], CInt 3, CInt 5]]"

definition grid_date :: "'f cell list list" where
  "grid_date = [header_row_ex, [CStr [], CStr (ascii ''05.01.2024''), CInt 3, CInt 5]]"

definition grid_nodate :: "'f cell list list" where
  "grid_nodate = [header_row_ex, [CStr [], CStr (ascii ''Ivan''), CInt 7]]"

definition grid_text :: "'f cell list list" where
  "grid_text =
     [header_row_ex,
      [CStr [], CStr (ascii ''05.01.2024''), CInt 3, CInt 5],
      [CStr [], CStr (ascii ''Ivan''), CStr (ascii ''n/a''), CStr (ascii ''12,5'')],
      [CStr [], CStr (ascii ''S''), CInt 1, CInt 1]]"

section \<open>Properties of the cell classifiers\<close>

lemma strip_last_not_space: "strip s \<noteq> [] \<Longrightarrow> \<not> isspace (last (strip s))"
proof -
  assume a: "strip s \<noteq> []"
  let ?u = "dropWhile isspace (rev (dropWhile isspace s))"
  from a have ne: "?u \<noteq> []" by (simp add: strip_def)
  then have "\<not> isspace (hd ?u)" by (rule hd_dropWhile)
  moreover have "last (strip s) = hd ?u" using ne by (simp add: strip_def last_rev)
  ultimately show ?thesis by simp
qed

lemma isspace_newline: "isspace 10" by (simp add: isspace_def)

lemma re_match_date_strip: "re_match_date py (strip s) = date_shape py (strip s)"
  using strip_last_not_space [of s] isspace_newline
  by (auto simp: re_match_date_def)

lemma date_shape_iff:
  "date_shape py t \<longleftrightarrow>
     (\<exists>a b c d e f g h. t = [a, b, 46, c, d, 46, e, f, g, h] \<and>
        re_digit py a \<and> re_digit py b \<and> re_digit py c \<and> re_digit py d \<and>
        re_digit py e \<and> re_digit py f \<and> re_digit py g \<and> re_digit py h)"
proof
  assume d: "date_shape py t"
  then have len: "length t = 10" by (simp add: date_shape_def)
  then obtain a b p c d' q e f g h where t: "t = [a, b, p, c, d', q, e, f, g, h]"
    by (auto simp: eval_nat_numeral length_Suc_conv)
  with d show "\<exists>a b c d e f g h. t = [a, b, 46, c, d, 46, e, f, g, h] \<and>
        re_digit py a \<and> re_digit py b \<and> re_digit py c \<and> re_digit py d \<and>
        re_digit py e \<and> re_digit py f \<and> re_digit py g \<and> re_digit py h"
    by (simp add: date_shape_def eval_nat_numeral)
next
  assume "\<exists>a b c d e f g h. t = [a, b, 46, c, d, 46, e, f, g, h] \<and>
        re_digit py a \<and> re_digit py b \<and> re_digit py c \<and> re_digit py d \<and>
        re_digit py e \<and> re_digit py f \<and> re_digit py g \<and> re_digit py h"
  then show "date_shape py t"
    by (auto simp: date_shape_def eval_nat_numeral)
qed

lemma dropWhile_hd_id: "xs \<noteq> [] \<Longrightarrow> \<not> P (hd xs) \<Longrightarrow> dropWhile P xs = xs"
  by (cases xs) simp_all

lemma strip_plain: "s \<noteq> [] \<Longrightarrow> \<not> isspace (hd s) \<Longrightarrow> \<not> isspace (last s) \<Longrightarrow> strip s = s"
  by (simp add: strip_def dropWhile_hd_id hd_rev)

lemma is_valid_date_cell_iff:
  "is_valid_date_cell py v \<longleftrightarrow> (\<exists>s. v = CStr s \<and> date_shape py (strip s))"
  by (cases v) (simp_all add: is_valid_date_cell_def re_match_date_strip)

lemma python_like_ref: "python_like ref_builtins"
  by (simp add: python_like_def ref_builtins_def)

text \<open>
  Claim C7. \<open>is_valid_date_cell v\<close> holds exactly when \<open>v\<close> is text whose stripped form
  is two digits, a dot, two digits, a dot and four digits (digits in the sense of \<open>\d\<close>);
  a value that is not text is never a date. With Python's \<open>\d\<close> it accepts
  \<open>"05.01.2024"\<close>, and it rejects \<open>"2024-01-05"\<close>, \<open>"5.1.2024"\<close> and \<open>"05.01.24"\<close>
  whatever \<open>\d\<close> is.
\<close>

theorem is_valid_date_cell_spec:
  "(is_valid_date_cell py v \<longleftrightarrow>
      (\<exists>s a b c d e f g h. v = CStr s \<and> strip s = [a, b, 46, c, d, 46, e, f, g, h] \<and>
         re_digit py a \<and> re_digit py b \<and> re_digit py c \<and> re_digit py d \<and>
         re_digit py e \<and> re_digit py f \<and> re_digit py g \<and> re_digit py h)) \<and>
   (python_like py \<longrightarrow> is_valid_date_cell py (CStr (ascii ''05.01.2024''))) \<and>
   \<not> is_valid_date_cell py (CStr (ascii ''2024-01-05'')) \<and>
   \<not> is_valid_date_cell py (CStr (ascii ''5.1.2024'')) \<and>
   \<not> is_valid_date_cell py (CStr (ascii ''05.01.24''))"
proof -
  have strips: "strip (ascii ''05.01.2024'') = ascii ''05.01.2024''"
    "strip (ascii ''2024-01-05'') = ascii ''2024-01-05''"
    "strip (ascii ''5.1.2024'') = ascii ''5.1.2024''"
    "strip (ascii ''05.01.24'') = ascii ''05.01.24''"
    by (rule strip_plain; simp add: ascii_def isspace_def)+
  have 1: "is_valid_date_cell py v \<longleftrightarrow>
      (\<exists>s a b c d e f g h. v = CStr s \<and> strip s = [a, b, 46, c, d, 46, e, f, g, h] \<and>
         re_digit py a \<and> re_digit py b \<and> re_digit py c \<and> re_digit py d \<and>
         re_digit py e \<and> re_digit py f \<and> re_digit py g \<and> re_digit py h)"
    unfolding is_valid_date_cell_iff date_shape_iff by blast
  have 2: "is_valid_date_cell py (CStr (ascii ''05.01.2024''))" if "python_like py"
    using that unfolding is_valid_date_cell_iff
    by (simp add: strips date_shape_def) (simp add: ascii_def python_like_def)
  have 3: "\<not> is_valid_date_cell py (CStr (ascii ''2024-01-05''))"
    unfolding is_valid_date_cell_iff by (simp add: strips date_shape_def) (simp add: ascii_def)
  have 4: "\<not> is_valid_date_cell py (CStr (ascii ''5.1.2024''))"
    unfolding is_valid_date_cell_iff by (simp add: strips date_shape_def) (simp add: ascii_def)
  have 5: "\<not> is_valid_date_cell py (CStr (ascii ''05.01.24''))"
    unfolding is_valid_date_cell_iff by (simp add: strips date_shape_def) (simp add: ascii_def)
  from 1 2 3 4 5 show ?thesis by blast
qed

theorem is_valid_date_cell_spec_witness:
  "is_valid_date_cell ref_builtins (CStr (ascii '' 05.01.2024 '')) \<and>
   is_valid_date_cell ref_builtins (CStr (ascii ''05.01.2024'')) \<and>
   \<not> is_valid_date_cell ref_builtins (CInt 5012024)"
proof -
  have s: "strip (ascii '' 05.01.2024 '') = [48, 53, 46, 48, 49, 46, 50, 48, 50, 52]"
    by (simp add: strip_def ascii_def isspace_def)
  have d: "re_digit ref_builtins c = (48 \<le> c \<and> c \<le> 57)" for c
    by (simp add: ref_builtins_def)
  show ?thesis
    using is_valid_date_cell_spec [of ref_builtins "CStr (ascii '' 05.01.2024 '')"]
      is_valid_date_cell_spec [of ref_builtins "CInt 5012024"] python_like_ref
    by (simp add: s d)
qed

text \<open>
  Claim C6. \<open>safe_num\<close> returns a number on every input (the \<open>ValueError\<close> of
  \<open>float\<close> is a branch): 0 for \<open>None\<close> and the empty text, a number unchanged, and
  for other text the \<open>float\<close> of the text with commas replaced by dots, or 0 when
  \<open>float\<close> fails. So \<open>safe_num("12,5")\<close> is \<open>float("12.5")\<close>, \<open>safe_num("abc")\<close> is 0
  as \<open>float("abc")\<close> fails, and \<open>safe_num(7)\<close> is 7.
\<close>

theorem safe_num_spec:
  "is_number (safe_num py x) \<and>
   safe_num py CNone = CInt 0 \<and> safe_num py (CStr []) = CInt 0 \<and>
   (is_number x \<longrightarrow> safe_num py x = x) \<and>
   (s \<noteq> [] \<longrightarrow> safe_num py (CStr s) =
      (case float_of_str py (replace_comma s) of Some y \<Rightarrow> CFloat y | None \<Rightarrow> CInt 0)) \<and>
   replace_comma (ascii ''12,5'') = ascii ''12.5'' \<and>
   (float_of_str py (ascii ''12.5'') = Some y \<longrightarrow> safe_num py (CStr (ascii ''12,5'')) = CFloat y) \<and>
   (float_of_str py (ascii ''abc'') = None \<longrightarrow> safe_num py (CStr (ascii ''abc'')) = CInt 0) \<and>
   safe_num py (CInt 7) = CInt 7"
proof -
  have r: "replace_comma (ascii ''12,5'') = ascii ''12.5''"
    "replace_comma (ascii ''abc'') = ascii ''abc''"
    by (simp_all add: replace_comma_def ascii_def)
  have n: "is_number (safe_num py x)"
    by (cases x) (simp_all add: safe_num_def is_blank_def split: option.splits)
  have t: "safe_num py (CStr u) =
      (case float_of_str py (replace_comma u) of Some y \<Rightarrow> CFloat y | None \<Rightarrow> CInt 0)"
    if "u \<noteq> []" for u using that by (simp add: safe_num_def is_blank_def)
  have i: "safe_num py x = x" if "is_number x"
    using that by (cases x) (simp_all add: safe_num_def is_blank_def)
  have a: "ascii ''12,5'' \<noteq> []" "ascii ''abc'' \<noteq> []" by (simp_all add: ascii_def)
  show ?thesis
    using n i t [OF a(1)] t [OF a(2)] t r
    by (auto simp: safe_num_def is_blank_def)
qed

theorem safe_num_spec_witness:
  "safe_num ref_builtins (CStr (ascii ''12,5'')) = CFloat (Decimal 125 1) \<and>
   safe_num ref_builtins (CStr (ascii ''abc'')) = CInt 0 \<and>
   safe_num ref_builtins (CFloat (Decimal 125 1)) = CFloat (Decimal 125 1)"
proof -
  have p: "float_of_str ref_builtins (ascii ''12.5'') = Some (Decimal 125 1)"
    "float_of_str ref_builtins (ascii ''abc'') = None"
    by (simp_all add: ref_builtins_def parse_decimal_def parse_unsigned_def strip_def
        ascii_def isspace_def)
  show ?thesis
    using safe_num_spec [of ref_builtins "CFloat (Decimal 125 1)" "ascii ''x''" "Decimal 125 1"] p
    by simp
qed

section \<open>Properties of the header locator\<close>

lemma time_cols_of_Nil: "time_cols_of py [] = []"
  by (simp add: time_cols_of_def)

lemma time_cols_of_Cons:
  "time_cols_of py (x # xs) =
     (if is_time_cell py x then [0] else []) @ map Suc (time_cols_of py xs)"
proof -
  have "[0..<length (x # xs)] = 0 # map Suc [0..<length xs]"
    by (simp add: upt_conv_Cons map_Suc_upt del: upt_Suc)
  then show ?thesis
    by (simp add: time_cols_of_def filter_map comp_def)
qed

lemma time_cols_of_empty_iff: "time_cols_of py row = [] \<longleftrightarrow> \<not> row_has_time py row"
  by (induction row) (simp_all add: time_cols_of_Nil time_cols_of_Cons row_has_time_def)

lemma scan_cells_fixed:
  "scan_cells py xs c (info, h, f) = (info', h', f') \<Longrightarrow>
     found info' = found info \<and> rowIdx info' = rowIdx info \<and> managerCol info' = managerCol info"
proof (induction xs arbitrary: c info h f)
  case Nil
  then show ?case by simp
next
  case (Cons x xs)
  from Cons.prems show ?case
    by (simp add: Let_def) (drule Cons.IH, simp)
qed

lemma scan_cells_timeCols:
  "scan_cells py xs c (info, h, f) = (info', h', f') \<Longrightarrow>
     timeCols info' = timeCols info @ map (\<lambda>j. c + j) (time_cols_of py xs)"
proof (induction xs arbitrary: c info h f)
  case Nil
  then show ?case by (simp add: time_cols_of_Nil)
next
  case (Cons x xs)
  from Cons.prems show ?case
    by (simp add: Let_def) (drule Cons.IH, simp add: time_cols_of_Cons is_time_cell_def comp_def)
qed

lemma scan_cells_has_time:
  "scan_cells py xs c (info, h, f) = (info', h', f') \<Longrightarrow> h' = (h \<or> row_has_time py xs)"
proof (induction xs arbitrary: c info h f)
  case Nil
  then show ?case by (simp add: row_has_time_def)
next
  case (Cons x xs)
  from Cons.prems show ?case
    by (simp add: Let_def) (drule Cons.IH, auto simp: row_has_time_def is_time_cell_def)
qed

lemma scan_cells_first:
  "scan_cells py xs c (info, h, f) = (info', h', f') \<Longrightarrow>
     f' = (if h \<or> \<not> row_has_time py xs then f else int (c + hd (time_cols_of py xs)))"
proof (induction xs arbitrary: c info h f)
  case Nil
  then show ?case by (simp add: row_has_time_def)
next
  case (Cons x xs)
  from Cons.prems show ?case
    by (simp add: Let_def)
      (drule Cons.IH, auto simp: row_has_time_def is_time_cell_def time_cols_of_Cons
        time_cols_of_empty_iff hd_map)
qed

lemma scan_rows_none:
  "\<forall>row \<in> set rows. \<not> row_has_time py row \<Longrightarrow>
     found (scan_rows py rows r info) = found info \<and>
     rowIdx (scan_rows py rows r info) = rowIdx info \<and>
     timeCols (scan_rows py rows r info) = timeCols info"
proof (induction rows arbitrary: r info)
  case Nil
  then show ?case by simp
next
  case (Cons row rows)
  obtain info' h' f' where sc: "scan_cells py row 0 (info, False, - 1) = (info', h', f')"
    by (cases "scan_cells py row 0 (info, False, - 1)") auto
  from Cons.prems have nt: "\<not> row_has_time py row" by simp
  from nt have h: "\<not> h'" using scan_cells_has_time [OF sc] by simp
  from nt have t: "timeCols info' = timeCols info"
    using scan_cells_timeCols [OF sc] by (simp add: time_cols_of_empty_iff)
  from Cons.prems have "\<forall>row \<in> set rows. \<not> row_has_time py row" by simp
  from Cons.IH [OF this, of "Suc r" info'] sc h t scan_cells_fixed [OF sc]
  show ?case by simp
qed

lemma scan_rows_first:
  "k < length rows \<Longrightarrow> row_has_time py (rows ! k) \<Longrightarrow>
   \<forall>j<k. \<not> row_has_time py (rows ! j) \<Longrightarrow>
     found (scan_rows py rows r info) \<and>
     rowIdx (scan_rows py rows r info) = int (r + k) \<and>
     timeCols (scan_rows py rows r info) = timeCols info @ time_cols_of py (rows ! k) \<and>
     managerCol (scan_rows py rows r info) = max 0 (int (hd (time_cols_of py (rows ! k))) - 1)"
proof (induction rows arbitrary: r info k)
  case Nil
  then show ?case by simp
next
  case (Cons row rows)
  obtain info' h' f' where sc: "scan_cells py row 0 (info, False, - 1) = (info', h', f')"
    by (cases "scan_cells py row 0 (info, False, - 1)") auto
  show ?case
  proof (cases k)
    case 0
    with Cons.prems have ht: "row_has_time py row" by simp
    from ht have h: "h'" using scan_cells_has_time [OF sc] by simp
    from ht have f: "f' = int (hd (time_cols_of py row))" using scan_cells_first [OF sc] by simp
    have t: "timeCols info' = timeCols info @ time_cols_of py row"
      using scan_cells_timeCols [OF sc] by simp
    from sc h f t 0 show ?thesis by simp
  next
    case (Suc k')
    with Cons.prems have nt: "\<not> row_has_time py row" by auto
    from nt have h: "\<not> h'" using scan_cells_has_time [OF sc] by simp
    from nt have t: "timeCols info' = timeCols info"
      using scan_cells_timeCols [OF sc] by (simp add: time_cols_of_empty_iff)
    from Cons.prems Suc have p: "k' < length rows" "row_has_time py (rows ! k')"
      "\<forall>j<k'. \<not> row_has_time py (rows ! j)" by auto
    from Cons.IH [OF p, of "Suc r" info'] sc h t Suc
    show ?thesis by simp
  qed
qed

lemma first_index:
  "list_ex P xs \<Longrightarrow> \<exists>k<length xs. P (xs ! k) \<and> (\<forall>j<k. \<not> P (xs ! j))"
proof -
  assume "list_ex P xs"
  then have ex: "\<exists>k. k < length xs \<and> P (xs ! k)"
    by (auto simp: list_ex_iff in_set_conv_nth)
  define k where "k = (LEAST k. k < length xs \<and> P (xs ! k))"
  from ex have 1: "k < length xs \<and> P (xs ! k)"
    unfolding k_def by (elim exE) (rule LeastI)
  have 2: "\<not> P (xs ! j)" if "j < k" for j
  proof
    assume "P (xs ! j)"
    with that 1 have "j < length xs \<and> P (xs ! j)" by simp
    then have "k \<le> j" unfolding k_def by (rule Least_le)
    with that show False by simp
  qed
  from 1 2 show ?thesis by blast
qed

lemma time_cols_of_hd:
  assumes "row_has_time py row"
  shows "hd (time_cols_of py row) < length row \<and> is_time_cell py (row ! hd (time_cols_of py row)) \<and>
         (\<forall>j < hd (time_cols_of py row). \<not> is_time_cell py (row ! j))"
proof -
  from assms have ne: "time_cols_of py row \<noteq> []" by (simp add: time_cols_of_empty_iff)
  then obtain c cs where cc: "time_cols_of py row = c # cs" by (cases "time_cols_of py row") auto
  then have "filter (\<lambda>c. is_time_cell py (row ! c)) [0..<length row] = c # cs"
    by (simp add: time_cols_of_def)
  then obtain us vs where uv: "[0..<length row] = us @ c # vs"
    and us: "\<forall>u\<in>set us. \<not> is_time_cell py (row ! u)" and c: "is_time_cell py (row ! c)"
    by (auto simp: filter_eq_Cons_iff)
  from uv have cin: "c \<in> set [0..<length row]" by simp
  have srt: "sorted [0..<length row]" by simp
  have "j \<in> set us" if "j < c" for j
  proof -
    from that cin have "j \<in> set [0..<length row]" by simp
    with uv have "j \<in> set us \<or> j = c \<or> j \<in> set vs" by auto
    moreover from srt uv have "\<forall>v\<in>set vs. c \<le> v" by (simp add: sorted_append)
    ultimately show ?thesis using that by auto
  qed
  with us c cin cc show ?thesis by auto
qed

lemma find_header_found:
  assumes "first_time_row py data r"
  shows "found (find_header_row_and_cols py data) \<and>
         rowIdx (find_header_row_and_cols py data) = int r \<and>
         timeCols (find_header_row_and_cols py data) = time_cols_of py (data ! r) \<and>
         managerCol (find_header_row_and_cols py data) =
           max 0 (int (hd (time_cols_of py (data ! r))) - 1)"
proof -
  let ?rows = "take (min 10 (length data)) data"
  from assms have r: "r < length ?rows" by (simp add: first_time_row_def)
  from assms have h: "row_has_time py (?rows ! r)" by (simp add: first_time_row_def)
  from assms have n: "\<forall>j<r. \<not> row_has_time py (?rows ! j)" by (simp add: first_time_row_def)
  from scan_rows_first [OF r h n, of 0 init_info] assms
  show ?thesis
    by (simp add: find_header_row_and_cols_def init_info_def first_time_row_def)
qed

lemma find_header_not_found:
  assumes "\<forall>r<min 10 (length data). \<not> row_has_time py (data ! r)"
  shows "\<not> found (find_header_row_and_cols py data) \<and>
         rowIdx (find_header_row_and_cols py data) = - 1 \<and>
         timeCols (find_header_row_and_cols py data) = []"
proof -
  let ?rows = "take (min 10 (length data)) data"
  from assms have "\<forall>row \<in> set ?rows. \<not> row_has_time py row"
    by (auto simp: in_set_conv_nth)
  from scan_rows_none [OF this, of 0 init_info]
  show ?thesis by (simp add: find_header_row_and_cols_def init_info_def)
qed

lemma find_header_cases:
  "(\<exists>r. first_time_row py data r) \<or> (\<forall>r<min 10 (length data). \<not> row_has_time py (data ! r))"
proof (cases "list_ex (row_has_time py) (take (min 10 (length data)) data)")
  case True
  from first_index [OF this] obtain k where
    "k < min 10 (length data)" "row_has_time py (take (min 10 (length data)) data ! k)"
    "\<forall>j<k. \<not> row_has_time py (take (min 10 (length data)) data ! j)"
    by auto
  then have "first_time_row py data k" by (simp add: first_time_row_def)
  then show ?thesis by blast
next
  case False
  have "\<not> row_has_time py (data ! r)" if r: "r < min 10 (length data)" for r
  proof
    assume h: "row_has_time py (data ! r)"
    from r have "take (min 10 (length data)) data ! r = data ! r" by simp
    moreover from r have "r < length (take (min 10 (length data)) data)" by simp
    ultimately have "data ! r \<in> set (take (min 10 (length data)) data)"
      by (metis nth_mem)
    with h False show False by (simp add: list_ex_iff)
  qed
  then show ?thesis by blast
qed

lemma found_first_time_row:
  assumes "found (find_header_row_and_cols py data)"
  shows "first_time_row py data (nat (rowIdx (find_header_row_and_cols py data)))"
proof -
  from find_header_cases [of py data] assms find_header_not_found [of data py]
  obtain r where r: "first_time_row py data r" by blast
  from find_header_found [OF r] r show ?thesis by simp
qed

lemma str_int_small: "0 \<le> i \<Longrightarrow> i < 10 \<Longrightarrow> str_int i = [48 + nat i]"
  by (simp add: str_int_def digits10.simps)

lemma grid_hdr_rows:
  "\<not> row_has_time ref_builtins (grid_hdr ! 0)" "row_has_time ref_builtins (grid_hdr ! 1)"
  "length grid_hdr = 3" "take 2 grid_hdr' = take 2 grid_hdr"
  "\<not> row_has_time ref_builtins (grid_none ! 0)" "\<not> row_has_time ref_builtins (grid_none ! 1)"
  "length grid_none = 2"
  by (simp_all add: grid_hdr_def grid_hdr'_def grid_none_def row_has_time_def is_time_cell_def
      is_time_text_def ref_builtins_def ascii_def lower_basic_def sublist_code str_int_small)

text \<open>
  Claim C4. \<open>find_header_row_and_cols\<close> looks at the first ten rows only. If \<open>r\<close> is the
  first of the scanned rows that has a time-interval cell, the header is found with
  \<open>rowIdx = r\<close>, and so it is for every grid that has the same rows up to and including
  \<open>r\<close>, whatever lies below. If no scanned row has such a cell, \<open>found\<close> is false.
\<close>

theorem find_header_first_row:
  "find_header_row_and_cols py data = find_header_row_and_cols py (take 10 data) \<and>
   (r < min 10 (length data) \<and> row_has_time py (data ! r) \<and>
      (\<forall>j<r. \<not> row_has_time py (data ! j)) \<longrightarrow>
        found (find_header_row_and_cols py data) \<and>
        rowIdx (find_header_row_and_cols py data) = int r \<and>
        (take (Suc r) data' = take (Suc r) data \<longrightarrow>
           found (find_header_row_and_cols py data') \<and>
           rowIdx (find_header_row_and_cols py data') = int r)) \<and>
   ((\<forall>r<min 10 (length data). \<not> row_has_time py (data ! r)) \<longrightarrow>
        \<not> found (find_header_row_and_cols py data))"
proof -
  have a: "find_header_row_and_cols py data = find_header_row_and_cols py (take 10 data)"
    by (simp add: find_header_row_and_cols_def min.commute min.left_commute)
  have b: "found (find_header_row_and_cols py data) \<and>
        rowIdx (find_header_row_and_cols py data) = int r \<and>
        (take (Suc r) data' = take (Suc r) data \<longrightarrow>
           found (find_header_row_and_cols py data') \<and>
           rowIdx (find_header_row_and_cols py data') = int r)"
    if f: "first_time_row py data r"
  proof -
    have "first_time_row py data' r" if eq: "take (Suc r) data' = take (Suc r) data"
    proof -
      have nth: "data' ! j = data ! j" if "j \<le> r" for j
      proof -
        from that have "data' ! j = take (Suc r) data' ! j" by simp
        also have "\<dots> = take (Suc r) data ! j" by (simp only: eq)
        also from that have "\<dots> = data ! j" by simp
        finally show ?thesis .
      qed
      from f have "Suc r \<le> length data" by (simp add: first_time_row_def)
      then have "length (take (Suc r) data) = Suc r" by simp
      with eq have "length (take (Suc r) data') = Suc r" by simp
      then have "r < length data'" by simp
      with f nth show ?thesis by (simp add: first_time_row_def)
    qed
    with find_header_found [OF f] find_header_found [of py data' r] show ?thesis by blast
  qed
  have c: "\<not> found (find_header_row_and_cols py data)"
    if "\<forall>r<min 10 (length data). \<not> row_has_time py (data ! r)"
    using find_header_not_found [OF that] by simp
  have b': "r < min 10 (length data) \<and> row_has_time py (data ! r) \<and>
      (\<forall>j<r. \<not> row_has_time py (data ! j)) \<longrightarrow>
        found (find_header_row_and_cols py data) \<and>
        rowIdx (find_header_row_and_cols py data) = int r \<and>
        (take (Suc r) data' = take (Suc r) data \<longrightarrow>
           found (find_header_row_and_cols py data') \<and>
           rowIdx (find_header_row_and_cols py data') = int r)"
  proof (rule impI)
    assume "r < min 10 (length data) \<and> row_has_time py (data ! r) \<and>
      (\<forall>j<r. \<not> row_has_time py (data ! j))"
    then have "first_time_row py data r" by (simp add: first_time_row_def)
    from b [OF this]
    show "found (find_header_row_and_cols py data) \<and>
        rowIdx (find_header_row_and_cols py data) = int r \<and>
        (take (Suc r) data' = take (Suc r) data \<longrightarrow>
           found (find_header_row_and_cols py data') \<and>
           rowIdx (find_header_row_and_cols py data') = int r)" .
  qed
  have c': "(\<forall>r<min 10 (length data). \<not> row_has_time py (data ! r)) \<longrightarrow>
        \<not> found (find_header_row_and_cols py data)"
    using c by (rule impI)
  show ?thesis
    by (rule conjI, rule a, rule conjI, rule b', rule c')
qed

theorem find_header_first_row_witness:
  "found (find_header_row_and_cols ref_builtins grid_hdr) \<and>
   rowIdx (find_header_row_and_cols ref_builtins grid_hdr) = 1 \<and>
   rowIdx (find_header_row_and_cols ref_builtins grid_hdr') = 1 \<and>
   \<not> found (find_header_row_and_cols ref_builtins grid_none)"
proof -
  have a: "\<forall>j<1. \<not> row_has_time ref_builtins (grid_hdr ! j)"
    using grid_hdr_rows(1) by simp
  have b: "\<forall>r<min 10 (length grid_none). \<not> row_has_time ref_builtins (grid_none ! r)"
    using grid_hdr_rows(5,6,7) by (simp add: less_Suc_eq numeral_2_eq_2)
  show ?thesis
    using find_header_first_row [of ref_builtins grid_hdr 1 grid_hdr', THEN conjunct2]
      find_header_first_row [of ref_builtins grid_none 0 grid_none, THEN conjunct2, THEN conjunct2]
      a b grid_hdr_rows(2,3,4)
    by (simp add: numeral_2_eq_2)
qed

text \<open>
  Claim C8. \<open>timeCols\<close> is non-empty exactly when \<open>found\<close> is true; and when it is, the
  header row has a leftmost time-interval cell at a column \<open>c\<close>, which is the first
  entry of \<open>timeCols\<close>, and \<open>managerCol = max 0 (c - 1)\<close>.
\<close>

theorem header_info_invariant:
  "(timeCols (find_header_row_and_cols py data) \<noteq> [] \<longleftrightarrow>
      found (find_header_row_and_cols py data)) \<and>
   (found (find_header_row_and_cols py data) \<longrightarrow>
      (\<exists>r c. rowIdx (find_header_row_and_cols py data) = int r \<and> r < length data \<and>
         c < length (data ! r) \<and> is_time_cell py (data ! r ! c) \<and>
         (\<forall>j<c. \<not> is_time_cell py (data ! r ! j)) \<and>
         timeCols (find_header_row_and_cols py data) ! 0 = c \<and>
         managerCol (find_header_row_and_cols py data) = max 0 (int c - 1)))"
proof (cases "found (find_header_row_and_cols py data)")
  case True
  let ?r = "nat (rowIdx (find_header_row_and_cols py data))"
  from found_first_time_row [OF True] have f: "first_time_row py data ?r" .
  then have ht: "row_has_time py (data ! ?r)" and r: "?r < length data"
    by (simp_all add: first_time_row_def)
  from ht have ne: "time_cols_of py (data ! ?r) \<noteq> []" by (simp add: time_cols_of_empty_iff)
  then have hd0: "time_cols_of py (data ! ?r) ! 0 = hd (time_cols_of py (data ! ?r))"
    by (simp add: hd_conv_nth)
  from find_header_found [OF f] time_cols_of_hd [OF ht] ne r hd0 True
  show ?thesis by (intro conjI impI exI [of _ ?r] exI [of _ "hd (time_cols_of py (data ! ?r))"]) simp_all
next
  case False
  with find_header_cases [of py data] find_header_found [of py data]
  have "\<forall>r<min 10 (length data). \<not> row_has_time py (data ! r)" by blast
  from find_header_not_found [OF this] False
  show ?thesis by simp
qed

theorem header_info_invariant_witness:
  "timeCols (find_header_row_and_cols ref_builtins grid_hdr) \<noteq> [] \<and>
   managerCol (find_header_row_and_cols ref_builtins grid_hdr) = 1 \<and>
   timeCols (find_header_row_and_cols ref_builtins grid_none) = []"
proof -
  have f: "found (find_header_row_and_cols ref_builtins grid_hdr)"
    "\<not> found (find_header_row_and_cols ref_builtins grid_none)"
    by (simp_all add: find_header_row_and_cols_def grid_hdr_def grid_none_def init_info_def
      is_time_text_def ref_builtins_def ascii_def lower_basic_def sublist_code str_int_small Let_def kw_total_def kw_warm_def kw_warm_off_def kw_conv_def)
  have t: "\<not> is_time_cell ref_builtins (grid_hdr ! 1 ! 0)" "\<not> is_time_cell ref_builtins (grid_hdr ! 1 ! 1)"
    "is_time_cell ref_builtins (grid_hdr ! 1 ! 2)"
    by (simp_all add: grid_hdr_def is_time_cell_def
      is_time_text_def ref_builtins_def ascii_def lower_basic_def sublist_code str_int_small)
  have r: "rowIdx (find_header_row_and_cols ref_builtins grid_hdr) = 1"
    by (simp add: find_header_row_and_cols_def grid_hdr_def grid_none_def init_info_def
      is_time_text_def ref_builtins_def ascii_def lower_basic_def sublist_code str_int_small Let_def kw_total_def kw_warm_def kw_warm_off_def kw_conv_def)
  from header_info_invariant [of ref_builtins grid_hdr] f(1) r obtain c where
    c: "is_time_cell ref_builtins (grid_hdr ! 1 ! c)" "\<forall>j<c. \<not> is_time_cell ref_builtins (grid_hdr ! 1 ! j)"
     "managerCol (find_header_row_and_cols ref_builtins grid_hdr) = max 0 (int c - 1)"
    by auto
  have "c \<noteq> 0"
  proof
    assume "c = 0"
    with c(1) t(1) show False by simp
  qed
  moreover have "c \<noteq> 1"
  proof
    assume "c = 1"
    with c(1) t(2) show False by simp
  qed
  moreover have "\<not> 2 < c"
  proof
    assume "2 < c"
    with c(2) t(3) show False by blast
  qed
  ultimately have "c = 2" by simp
  with c(3) header_info_invariant [of ref_builtins grid_hdr] header_info_invariant [of ref_builtins grid_none] f 
  show ?thesis by simp
qed

section \<open>Properties of the sync decision\<close>

text \<open>
  Claim C9. When the metadata call succeeds, \<open>should_sync_sheet\<close> returns true if no
  sheet is titled \<open>DB_name\<close>; otherwise true if the month name occurs in \<open>name\<close>;
  otherwise, when column A of \<open>DB_name\<close> is read, true if it has at most one row and
  false if it has more.
\<close>

theorem should_sync_sheet_spec:
  "get_spreadsheet_metadata service = Inr titles \<Longrightarrow>
   (ascii ''DB_'' @ name \<notin> set titles \<longrightarrow> should_sync_sheet service name month = Inr True) \<and>
   (ascii ''DB_'' @ name \<in> set titles \<and> sublist month name \<longrightarrow>
      should_sync_sheet service name month = Inr True) \<and>
   (ascii ''DB_'' @ name \<in> set titles \<and> \<not> sublist month name \<and>
    read_values service (ascii ''DB_'' @ name @ ascii ''!A:A'') = Inr values \<longrightarrow>
      should_sync_sheet service name month = Inr (length values \<le> 1))"
  by (simp add: should_sync_sheet_def sheet_last_row_estimate_def list_ex_iff Let_def)

theorem should_sync_sheet_spec_witness:
  "should_sync_sheet svc_demo (ascii ''April'') (ascii ''March'') = Inr True \<and>
   should_sync_sheet svc_demo (ascii ''March'') (ascii ''March'') = Inr True \<and>
   should_sync_sheet svc_demo (ascii ''Old'') (ascii ''March'') = Inr False \<and>
   should_sync_sheet svc_demo (ascii ''March'') (ascii ''April'') = Inr True"
proof -
  have m: "get_spreadsheet_metadata svc_demo =
      Inr [ascii ''Settings'', ascii ''DB_March'', ascii ''DB_Old'']"
    by (simp add: svc_demo_def)
  have r: "read_values svc_demo (ascii ''DB_'' @ ascii ''Old'' @ ascii ''!A:A'') = Inr [0, 1, 2]"
    "read_values svc_demo (ascii ''DB_'' @ ascii ''March'' @ ascii ''!A:A'') = Inr [0]"
    by (simp_all add: svc_demo_def ascii_def)
  have s: "sublist (ascii ''March'') (ascii ''March'')" "\<not> sublist (ascii ''March'') (ascii ''Old'')"
    "\<not> sublist (ascii ''April'') (ascii ''March'')"
    by (simp_all add: ascii_def sublist_code)
  note s = s [unfolded ascii_def, simplified] r [unfolded ascii_def, simplified]
  show ?thesis
    using should_sync_sheet_spec [OF m, of "ascii ''April''" "ascii ''March''"]
      should_sync_sheet_spec [OF m, of "ascii ''March''" "ascii ''March''"]
      should_sync_sheet_spec [OF m, of "ascii ''Old''" "ascii ''March''" "[0, 1, 2]"]
      should_sync_sheet_spec [OF m, of "ascii ''March''" "ascii ''April''" "[0]"]
      s
    by (simp add: ascii_def)
qed

section \<open>Properties of the table builder\<close>

lemma emit_loop_step:
  "emit_loop py h data row d ow (tc # tcs) result =
     emit_loop py h data row d ow tcs (result @ emit_piece py h data row d ow tc)"
  by (simp add: Let_def emit_piece_def time_label_def offers_at_def)

lemma emit_loop_append:
  "emit_loop py h data row d ow tcs result = result @ emit_loop py h data row d ow tcs []"
proof (induction tcs arbitrary: result)
  case Nil
  then show ?case by simp
next
  case (Cons tc tcs)
  let ?p = "emit_piece py h data row d ow tc"
  have "emit_loop py h data row d ow (tc # tcs) result =
      emit_loop py h data row d ow tcs (result @ ?p)"
    by (rule emit_loop_step)
  also have "\<dots> = (result @ ?p) @ emit_loop py h data row d ow tcs []"
    by (rule Cons.IH)
  finally have l: "emit_loop py h data row d ow (tc # tcs) result =
      result @ ?p @ emit_loop py h data row d ow tcs []" by simp
  have "emit_loop py h data row d ow (tc # tcs) [] = emit_loop py h data row d ow tcs ([] @ ?p)"
    by (rule emit_loop_step)
  also have "\<dots> = ?p @ emit_loop py h data row d ow tcs []"
    using Cons.IH [of ?p] by simp
  finally show ?case using l by simp
qed

lemma emit_loop_Cons:
  "emit_loop py h data row d ow (tc # tcs) [] =
     emit_piece py h data row d ow tc @ emit_loop py h data row d ow tcs []"
proof -
  have "emit_loop py h data row d ow (tc # tcs) [] =
      emit_loop py h data row d ow tcs ([] @ emit_piece py h data row d ow tc)"
    by (rule emit_loop_step)
  also have "\<dots> = emit_piece py h data row d ow tc @ emit_loop py h data row d ow tcs []"
    using emit_loop_append [of py h data row d ow tcs "emit_piece py h data row d ow tc"] by simp
  finally show ?thesis .
qed

lemma emit_loop_named:
  "ow \<noteq> DEPARTMENT_TOTAL \<Longrightarrow>
   emit_loop py h data row d ow tcs [] =
     map (\<lambda>tc. [CStr d, CStr ow, CStr (str py (time_label h data tc)), offers_at row tc,
                 get_val row (totalCol h), get_val row (warmCol h),
                 get_val row (warmOffCol h), get_val row (convCol h)]) tcs"
proof (induction tcs)
  case Nil
  then show ?case by simp
next
  case (Cons tc tcs)
  then show ?case by (simp only: emit_loop_Cons) (simp add: emit_piece_def)
qed

lemma emit_loop_total:
  "emit_loop py h data row d DEPARTMENT_TOTAL tcs [] =
     map (\<lambda>tc. [CStr d, CStr DEPARTMENT_TOTAL, CStr ALL_DAY, offers_at row tc,
                 get_val row (totalCol h), get_val row (warmCol h),
                 get_val row (warmOffCol h), get_val row (convCol h)])
       (filter (\<lambda>tc. tc = timeCols h ! 0) tcs)"
proof (induction tcs)
  case Nil
  then show ?case by simp
next
  case (Cons tc tcs)
  then show ?case by (simp only: emit_loop_Cons) (simp add: emit_piece_def)
qed

lemma filter_eq_first: "distinct xs \<Longrightarrow> xs \<noteq> [] \<Longrightarrow> filter (\<lambda>x. x = xs ! 0) xs = [xs ! 0]"
  by (cases xs) (auto simp: filter_id_conv filter_empty_conv)

lemma process_row_date:
  "fst (process_row py h data row (cur, res)) =
     (if is_valid_date_cell py (manager_cell h row) then cell_text (manager_cell h row) else cur)"
  by (simp add: process_row_def manager_cell_def Let_def)

lemma process_row_split:
  "process_row py h data row (cur, res) =
     (fst (process_row py h data row (cur, [])), res @ snd (process_row py h data row (cur, [])))"
  by (simp add: process_row_def Let_def emit_loop_append [of _ _ _ _ _ _ _ res])

lemma rows_loop_snoc:
  "rows_loop py h data (xs @ [x]) st = process_row py h data x (rows_loop py h data xs st)"
  by (induction xs arbitrary: st) simp_all

lemma rows_loop_split:
  "rows_loop py h data rows (cur, res) =
     (fst (rows_loop py h data rows (cur, [])), res @ snd (rows_loop py h data rows (cur, [])))"
proof (induction rows rule: rev_induct)
  case Nil
  then show ?case by simp
next
  case (snoc x xs)
  obtain c r where cr: "rows_loop py h data xs (cur, []) = (c, r)"
    by (cases "rows_loop py h data xs (cur, [])") auto
  with snoc have 1: "rows_loop py h data xs (cur, res) = (c, res @ r)" by simp
  have a: "process_row py h data x (c, res @ r) =
      (fst (process_row py h data x (c, [])), (res @ r) @ snd (process_row py h data x (c, [])))"
    by (rule process_row_split)
  have b: "process_row py h data x (c, r) =
      (fst (process_row py h data x (c, [])), r @ snd (process_row py h data x (c, [])))"
    by (rule process_row_split)
  show ?case
    unfolding rows_loop_snoc 1 cr by (simp add: a b)
qed

lemma rows_loop_concat:
  "snd (rows_loop py h data rows (None, [])) =
     concat (map (\<lambda>k. snd (process_row py h data (rows ! k)
                             (fst (rows_loop py h data (take k rows) (None, [])), [])))
               [0..<length rows])"
proof (induction rows rule: rev_induct)
  case Nil
  then show ?case by simp
next
  case (snoc x xs)
  obtain c r where cr: "rows_loop py h data xs (None, []) = (c, r)"
    by (cases "rows_loop py h data xs (None, [])") auto
  have 1: "snd (rows_loop py h data (xs @ [x]) (None, [])) =
      r @ snd (process_row py h data x (c, []))"
    unfolding rows_loop_snoc cr by (subst process_row_split) simp
  let ?F = "\<lambda>ys k. snd (process_row py h data (ys ! k)
                         (fst (rows_loop py h data (take k ys) (None, [])), []))"
  have 2: "map (?F (xs @ [x])) [0..<length xs] = map (?F xs) [0..<length xs]"
    by (rule map_cong) (simp_all add: nth_append)
  have 3: "?F (xs @ [x]) (length xs) = snd (process_row py h data x (c, []))"
    by (simp add: cr)
  have 4: "[0..<length (xs @ [x])] = [0..<length xs] @ [length xs]" by simp
  have "concat (map (?F (xs @ [x])) [0..<length (xs @ [x])]) =
      concat (map (?F (xs @ [x])) [0..<length xs]) @ ?F (xs @ [x]) (length xs)"
    unfolding 4 by simp
  also have "\<dots> = concat (map (?F xs) [0..<length xs]) @ snd (process_row py h data x (c, []))"
    by (simp only: 2 3)
  finally show ?case using snoc cr 1 by simp
qed

lemma emit_loop_concat:
  "emit_loop py h data row d ow tcs [] = concat (map (emit_piece py h data row d ow) tcs)"
proof (induction tcs)
  case Nil
  show ?case by simp
next
  case (Cons tc tcs)
  show ?case by (simp only: emit_loop_Cons Cons.IH list.map concat.simps)
qed

lemma build_db_result_rows:
  assumes "found (find_header_row_and_cols py data)"
  shows "build_db_result py data =
     Inr (header_record #
          concat (map (row_records py data)
                    [start_row (find_header_row_and_cols py data)..<length data]))"
proof -
  let ?h = "find_header_row_and_cols py data"
  let ?s = "start_row ?h"
  let ?rows = "drop ?s data"
  let ?F = "\<lambda>k. snd (process_row py ?h data (?rows ! k)
                       (fst (rows_loop py ?h data (take k ?rows) (None, [])), []))"
  have 1: "snd (rows_loop py ?h data ?rows (None, [header_record])) =
      [header_record] @ snd (rows_loop py ?h data ?rows (None, []))"
    by (subst rows_loop_split) simp
  have 2: "map ?F [0..<length ?rows] = map (\<lambda>k. row_records py data (k + ?s)) [0..<length ?rows]"
  proof (rule map_cong)
    fix k assume "k \<in> set [0..<length ?rows]"
    then have k: "k < length ?rows" by simp
    then have "?rows ! k = data ! (k + ?s)" by (simp add: add.commute)
    then show "?F k = row_records py data (k + ?s)"
      by (simp add: row_records_def date_before_def Let_def)
  qed simp
  have 3: "map (\<lambda>k. row_records py data (k + ?s)) [0..<length ?rows] =
      map (row_records py data) [?s..<length data]"
  proof (cases "?s \<le> length data")
    case True
    have "map (\<lambda>k. row_records py data (k + ?s)) [0..<length ?rows] =
        map (row_records py data) (map (\<lambda>k. k + ?s) [0..<length data - ?s])"
      by (simp add: comp_def)
    also have "map (\<lambda>k. k + ?s) [0..<length data - ?s] = [?s..<length data - ?s + ?s]"
      by (rule map_add_upt)
    finally show ?thesis using True by simp
  next
    case False
    then show ?thesis by simp
  qed
  from assms have "build_db_result py data =
      Inr (snd (rows_loop py ?h data ?rows (None, [header_record])))"
    by (simp add: build_db_result_def Let_def start_row_def)
  also have "snd (rows_loop py ?h data ?rows (None, [header_record])) =
      header_record # concat (map ?F [0..<length ?rows])"
    unfolding 1 by (subst rows_loop_concat) simp
  finally show ?thesis by (simp only: 2 3)
qed

lemma valid_date_text:
  "is_valid_date_cell py c \<Longrightarrow> \<exists>s. c = CStr s \<and> s \<noteq> [] \<and> cell_text c = Some s"
  by (cases c)
    (auto simp: is_valid_date_cell_def cell_text_def re_match_date_def date_shape_def strip_def)

lemma rows_loop_date:
  "(case fst (rows_loop py h data rows (None, [])) of
      None \<Rightarrow> \<forall>k<length rows. \<not> is_valid_date_cell py (manager_cell h (rows ! k))
    | Some d \<Rightarrow> d \<noteq> [] \<and> (\<exists>j<length rows. is_valid_date_cell py (manager_cell h (rows ! j)) \<and>
          manager_cell h (rows ! j) = CStr d \<and>
          (\<forall>k. j < k \<and> k < length rows \<longrightarrow>
                \<not> is_valid_date_cell py (manager_cell h (rows ! k)))))"
proof (induction rows rule: rev_induct)
  case Nil
  then show ?case by simp
next
  case (snoc x xs)
  obtain c r where cr: "rows_loop py h data xs (None, []) = (c, r)"
    by (cases "rows_loop py h data xs (None, [])") auto
  have f: "fst (rows_loop py h data (xs @ [x]) (None, [])) =
      (if is_valid_date_cell py (manager_cell h x) then cell_text (manager_cell h x) else c)"
    unfolding rows_loop_snoc cr by (rule process_row_date)
  show ?case
  proof (cases "is_valid_date_cell py (manager_cell h x)")
    case True
    from valid_date_text [OF True] obtain s where
      s: "manager_cell h x = CStr s" "s \<noteq> []" "cell_text (manager_cell h x) = Some s" by blast
    have "\<exists>j<length (xs @ [x]). is_valid_date_cell py (manager_cell h ((xs @ [x]) ! j)) \<and>
          manager_cell h ((xs @ [x]) ! j) = CStr s \<and>
          (\<forall>k. j < k \<and> k < length (xs @ [x]) \<longrightarrow>
                \<not> is_valid_date_cell py (manager_cell h ((xs @ [x]) ! k)))"
      using True s(1) by (intro exI [of _ "length xs"]) auto
    with f True s show ?thesis by simp
  next
    case False
    show ?thesis
    proof (cases c)
      case None
      with snoc cr have "\<forall>k<length xs. \<not> is_valid_date_cell py (manager_cell h (xs ! k))"
        by simp
      with False have "\<forall>k<length (xs @ [x]).
          \<not> is_valid_date_cell py (manager_cell h ((xs @ [x]) ! k))"
        by (simp add: nth_append less_Suc_eq)
      with f False None show ?thesis by simp
    next
      case (Some d)
      with snoc cr obtain j where j: "d \<noteq> []" "j < length xs"
        "is_valid_date_cell py (manager_cell h (xs ! j))" "manager_cell h (xs ! j) = CStr d"
        "\<forall>k. j < k \<and> k < length xs \<longrightarrow> \<not> is_valid_date_cell py (manager_cell h (xs ! k))"
        by auto
      have "\<forall>k. j < k \<and> k < length (xs @ [x]) \<longrightarrow>
          \<not> is_valid_date_cell py (manager_cell h ((xs @ [x]) ! k))"
        using j(5) False by (simp add: nth_append less_Suc_eq)
      with j have "\<exists>j<length (xs @ [x]). is_valid_date_cell py (manager_cell h ((xs @ [x]) ! j)) \<and>
          manager_cell h ((xs @ [x]) ! j) = CStr d \<and>
          (\<forall>k. j < k \<and> k < length (xs @ [x]) \<longrightarrow>
                \<not> is_valid_date_cell py (manager_cell h ((xs @ [x]) ! k)))"
        by (intro exI [of _ j]) (simp add: nth_append)
      with f False Some j(1) show ?thesis by simp
    qed
  qed
qed

lemma process_row_eq:
  "process_row py h data row (cur, res) =
     (let cv = manager_cell h row;
          d1 = (if is_valid_date_cell py cv then cell_text cv else cur);
          ow = classify_row py h row cv (is_valid_date_cell py cv) d1
      in if truthy ow \<and> truthy d1
         then (d1, emit_loop py h data row (the d1) (the ow) (timeCols h) res)
         else (d1, res))"
  unfolding process_row_def manager_cell_def Let_def by simp

lemma row_records_eq:
  "row_records py data i =
     (if truthy (owner_at py data i) \<and> truthy (date_at py data i)
      then concat (map (emit_piece py (find_header_row_and_cols py data) data (data ! i)
                          (the (date_at py data i)) (the (owner_at py data i)))
                     (timeCols (find_header_row_and_cols py data)))
      else [])"
proof -
  let ?h = "find_header_row_and_cols py data"
  let ?cv = "manager_cell ?h (data ! i)"
  have d: "date_at py data i =
      (if is_valid_date_cell py ?cv then cell_text ?cv else date_before py data i)"
    unfolding date_at_def by (rule process_row_date)
  have o: "owner_at py data i =
      classify_row py ?h (data ! i) ?cv (is_valid_date_cell py ?cv) (date_at py data i)"
    by (simp add: owner_at_def Let_def)
  have "row_records py data i =
      (if truthy (owner_at py data i) \<and> truthy (date_at py data i)
       then emit_loop py ?h data (data ! i) (the (date_at py data i))
              (the (owner_at py data i)) (timeCols ?h) []
       else [])"
    unfolding row_records_def process_row_eq Let_def o d by simp
  then show ?thesis by (simp only: emit_loop_concat)
qed

lemma date_at_rows:
  assumes "start_row (find_header_row_and_cols py data) \<le> i" "i < length data"
  shows "date_at py data i =
     fst (rows_loop py (find_header_row_and_cols py data) data
            (take (Suc i - start_row (find_header_row_and_cols py data))
               (drop (start_row (find_header_row_and_cols py data)) data)) (None, []))"
proof -
  let ?h = "find_header_row_and_cols py data"
  let ?s = "start_row ?h"
  let ?rows = "drop ?s data"
  from assms have k: "i - ?s < length ?rows" by simp
  from assms have n: "?rows ! (i - ?s) = data ! i" by simp
  from assms have "Suc i - ?s = Suc (i - ?s)" by simp
  with k n have t: "take (Suc i - ?s) ?rows = take (i - ?s) ?rows @ [data ! i]"
    by (simp add: take_Suc_conv_app_nth)
  obtain c r where cr: "rows_loop py ?h data (take (i - ?s) ?rows) (None, []) = (c, r)"
    by (cases "rows_loop py ?h data (take (i - ?s) ?rows) (None, [])") auto
  have "fst (rows_loop py ?h data (take (Suc i - ?s) ?rows) (None, [])) =
      fst (process_row py ?h data (data ! i) (c, r))"
    unfolding t rows_loop_snoc cr ..
  also have "\<dots> = fst (process_row py ?h data (data ! i) (c, []))"
    by (simp only: process_row_date)
  also have "\<dots> = date_at py data i"
    using cr by (simp add: date_at_def date_before_def Let_def)
  finally show ?thesis by simp
qed

lemma date_at_spec:
  assumes "start_row (find_header_row_and_cols py data) \<le> i" "i < length data"
  shows "(case date_at py data i of
      None \<Rightarrow> \<forall>j. start_row (find_header_row_and_cols py data) \<le> j \<and> j \<le> i \<longrightarrow>
          \<not> is_valid_date_cell py (manager_cell (find_header_row_and_cols py data) (data ! j))
    | Some d \<Rightarrow> d \<noteq> [] \<and>
        (\<exists>j. start_row (find_header_row_and_cols py data) \<le> j \<and> j \<le> i \<and>
          is_valid_date_cell py (manager_cell (find_header_row_and_cols py data) (data ! j)) \<and>
          manager_cell (find_header_row_and_cols py data) (data ! j) = CStr d \<and>
          (\<forall>k. j < k \<and> k \<le> i \<longrightarrow>
             \<not> is_valid_date_cell py
                 (manager_cell (find_header_row_and_cols py data) (data ! k)))))"
proof -
  define h where "h = find_header_row_and_cols py data"
  define s where "s = start_row h"
  define rows where "rows = take (Suc i - s) (drop s data)"
  define v where "v = (\<lambda>row. is_valid_date_cell py (manager_cell h row))"
  from assms have si: "s \<le> i" "i < length data" by (simp_all add: s_def h_def)
  then have len: "length rows = Suc i - s" by (simp add: rows_def)
  have nth: "rows ! k = data ! (s + k)" if "k < Suc i - s" for k
    using that si by (simp add: rows_def)
  have da: "date_at py data i = fst (rows_loop py h data rows (None, []))"
    using date_at_rows [OF assms] by (simp add: rows_def s_def h_def)
  note d = rows_loop_date [where py = py and h = h and data = data and rows = rows,
      folded da]
  have vdef: "v row = is_valid_date_cell py (manager_cell h row)" for row
    by (simp add: v_def)
  have goal: "(case date_at py data i of
      None \<Rightarrow> \<forall>j. s \<le> j \<and> j \<le> i \<longrightarrow> \<not> v (data ! j)
    | Some d \<Rightarrow> d \<noteq> [] \<and>
        (\<exists>j. s \<le> j \<and> j \<le> i \<and> v (data ! j) \<and> manager_cell h (data ! j) = CStr d \<and>
          (\<forall>k. j < k \<and> k \<le> i \<longrightarrow> \<not> v (data ! k))))"
  proof (cases "date_at py data i")
    case None
    with d have a: "\<forall>k<length rows. \<not> v (rows ! k)" by (simp add: vdef)
    have "\<not> v (data ! j)" if "s \<le> j \<and> j \<le> i" for j
    proof -
      from that have l: "j - s < Suc i - s" by arith
      with a len have "\<not> v (rows ! (j - s))" by simp
      moreover from nth [OF l] that have "rows ! (j - s) = data ! j" by simp
      ultimately show ?thesis by simp
    qed
    with None show ?thesis by simp
  next
    case (Some dt)
    with d obtain j where j: "dt \<noteq> []" "j < length rows" "v (rows ! j)"
      "manager_cell h (rows ! j) = CStr dt"
      "\<forall>k. j < k \<and> k < length rows \<longrightarrow> \<not> v (rows ! k)"
      by (auto simp: vdef)
    from j(2) len have jl: "j < Suc i - s" by simp
    have later: "\<not> v (data ! k)" if "s + j < k \<and> k \<le> i" for k
    proof -
      from that have l: "j < k - s \<and> k - s < length rows" unfolding len by arith
      with j(5) have "\<not> v (rows ! (k - s))" by blast
      moreover from l len have "k - s < Suc i - s" by simp
      from nth [OF this] that have "rows ! (k - s) = data ! k" by simp
      ultimately show ?thesis by simp
    qed
    from jl have "s \<le> s + j \<and> s + j \<le> i" by arith
    moreover from j(3) nth [OF jl] have "v (data ! (s + j))" by simp
    moreover from j(4) nth [OF jl] have "manager_cell h (data ! (s + j)) = CStr dt" by simp
    ultimately have "\<exists>j. s \<le> j \<and> j \<le> i \<and> v (data ! j) \<and> manager_cell h (data ! j) = CStr dt \<and>
        (\<forall>k. j < k \<and> k \<le> i \<longrightarrow> \<not> v (data ! k))"
      using later by (intro exI [of _ "s + j"]) blast
    with Some j(1) show ?thesis by simp
  qed
  then show ?thesis unfolding v_def s_def h_def .
qed

lemma emit_piece_fields:
  "rec \<in> set (emit_piece py h data row d ow tc) \<Longrightarrow>
     length rec = 8 \<and> rec ! 0 = CStr d \<and> rec ! 1 = CStr ow \<and> rec ! 3 = offers_at row tc \<and>
     rec ! 4 = get_val row (totalCol h) \<and> rec ! 5 = get_val row (warmCol h) \<and>
     rec ! 6 = get_val row (warmOffCol h) \<and> rec ! 7 = get_val row (convCol h)"
  by (auto simp: emit_piece_def split: if_splits)

lemma timeCols_distinct:
  assumes "found (find_header_row_and_cols py data)"
  shows "distinct (timeCols (find_header_row_and_cols py data)) \<and>
         timeCols (find_header_row_and_cols py data) \<noteq> []"
proof -
  from found_first_time_row [OF assms] have f: "first_time_row py data
      (nat (rowIdx (find_header_row_and_cols py data)))" .
  from find_header_found [OF f] have t: "timeCols (find_header_row_and_cols py data) =
      time_cols_of py (data ! nat (rowIdx (find_header_row_and_cols py data)))" by blast
  have "distinct (time_cols_of py (data ! nat (rowIdx (find_header_row_and_cols py data))))"
    by (simp add: time_cols_of_def)
  moreover from f have "time_cols_of py (data ! nat (rowIdx (find_header_row_and_cols py data))) \<noteq> []"
    by (simp add: time_cols_of_empty_iff first_time_row_def)
  ultimately show ?thesis by (simp only: t) simp
qed

lemma row_records_date:
  assumes "rec \<in> set (row_records py data i)"
  shows "\<exists>d. date_at py data i = Some d \<and> rec ! 0 = CStr d"
proof -
  from assms have t: "truthy (date_at py data i)"
    by (simp add: row_records_eq split: if_splits)
  then obtain d where d: "date_at py data i = Some d" by (cases "date_at py data i") auto
  from assms t obtain tc where
    "rec \<in> set (emit_piece py (find_header_row_and_cols py data) data (data ! i) d
                  (the (owner_at py data i)) tc)"
    by (auto simp: row_records_eq d split: if_splits)
  from emit_piece_fields [OF this] d show ?thesis by simp
qed

lemma row_records_no_date: "date_at py data i = None \<Longrightarrow> row_records py data i = []"
  by (simp add: row_records_eq)

text \<open>
  Claim C2. When a header is found, the table is the header record followed by the records
  of the rows below the header row, in order. Every record of row \<open>i\<close> has as its Date the
  manager-column cell of a row \<open>j\<close> below the header and not below \<open>i\<close> that is a valid date
  cell, with no valid date cell in the manager column strictly between \<open>j\<close> and \<open>i\<close> or at
  \<open>i\<close>; and a row with no valid date cell at or above it (below the header) gives no record.
\<close>

theorem record_date_invariant:
  assumes "found (find_header_row_and_cols py data)"
  shows "build_db_result py data =
      Inr (header_record #
           concat (map (row_records py data)
                     [start_row (find_header_row_and_cols py data)..<length data])) \<and>
    (\<forall>i rec. start_row (find_header_row_and_cols py data) \<le> i \<and> i < length data \<and>
        rec \<in> set (row_records py data i) \<longrightarrow>
        (\<exists>j. start_row (find_header_row_and_cols py data) \<le> j \<and> j \<le> i \<and>
           is_valid_date_cell py (manager_cell (find_header_row_and_cols py data) (data ! j)) \<and>
           rec ! 0 = manager_cell (find_header_row_and_cols py data) (data ! j) \<and>
           (\<forall>k. j < k \<and> k \<le> i \<longrightarrow>
              \<not> is_valid_date_cell py
                  (manager_cell (find_header_row_and_cols py data) (data ! k))))) \<and>
    (\<forall>i. start_row (find_header_row_and_cols py data) \<le> i \<and> i < length data \<and>
        (\<forall>j. start_row (find_header_row_and_cols py data) \<le> j \<and> j \<le> i \<longrightarrow>
           \<not> is_valid_date_cell py
               (manager_cell (find_header_row_and_cols py data) (data ! j))) \<longrightarrow>
        row_records py data i = [])"
proof -
  define h where "h = find_header_row_and_cols py data"
  define v where "v = (\<lambda>j. is_valid_date_cell py (manager_cell h (data ! j)))"
  have a: "\<exists>j. start_row h \<le> j \<and> j \<le> i \<and> v j \<and> rec ! 0 = manager_cell h (data ! j) \<and>
           (\<forall>k. j < k \<and> k \<le> i \<longrightarrow> \<not> v k)"
    if "start_row h \<le> i \<and> i < length data \<and> rec \<in> set (row_records py data i)" for i rec
  proof -
    from that have r: "start_row (find_header_row_and_cols py data) \<le> i" "i < length data"
      by (simp_all add: h_def)
    from that row_records_date obtain d where d: "date_at py data i = Some d" "rec ! 0 = CStr d"
      by blast
    from date_at_spec [OF r] d show ?thesis by (auto simp: h_def v_def)
  qed
  have b: "row_records py data i = []"
    if "start_row h \<le> i \<and> i < length data \<and> (\<forall>j. start_row h \<le> j \<and> j \<le> i \<longrightarrow> \<not> v j)" for i
  proof -
    from that have r: "start_row (find_header_row_and_cols py data) \<le> i" "i < length data"
      by (simp_all add: h_def)
    have "date_at py data i = None"
    proof (cases "date_at py data i")
      case (Some d)
      with date_at_spec [OF r] that show ?thesis by (auto simp: h_def v_def)
    qed simp
    then show ?thesis by (rule row_records_no_date)
  qed
  from build_db_result_rows [OF assms] a b show ?thesis
    unfolding h_def v_def by blast
qed

lemma date_at_nonempty:
  assumes "start_row (find_header_row_and_cols py data) \<le> i" "i < length data"
    "date_at py data i = Some d"
  shows "d \<noteq> []"
  using date_at_spec [OF assms(1,2)] assms(3) by simp

lemma DEPARTMENT_TOTAL_nonempty: "DEPARTMENT_TOTAL \<noteq> []"
  by (simp add: DEPARTMENT_TOTAL_def ascii_def)

lemma owner_at_nonempty: "owner_at py data i = Some ow \<Longrightarrow> ow \<noteq> []"
  by (auto simp: owner_at_def classify_row_def Let_def DEPARTMENT_TOTAL_nonempty
      split: if_splits)

lemma timeCols_in_header_row:
  assumes "found (find_header_row_and_cols py data)"
    "tc \<in> set (timeCols (find_header_row_and_cols py data))"
  shows "tc < length (data ! nat (rowIdx (find_header_row_and_cols py data)))"
proof -
  from found_first_time_row [OF assms(1)] have f: "first_time_row py data
      (nat (rowIdx (find_header_row_and_cols py data)))" .
  from find_header_found [OF f] have "timeCols (find_header_row_and_cols py data) =
      time_cols_of py (data ! nat (rowIdx (find_header_row_and_cols py data)))" by blast
  with assms(2) show ?thesis by (simp add: time_cols_of_def)
qed

text \<open>
  Claim C1. The emission loop runs for a row when \<open>row_owner\<close> and \<open>current_date\<close> are
  both set. When a header is found and row \<open>i\<close> lies below it: if the owner of the row is
  DEPARTMENT_TOTAL and the current date is set, the row gives exactly one record, with
  Time_Interval ALL_DAY and Offers read at the first time column, although the loop visits
  every time column; if the owner is a named manager and the current date is set, it
  gives one record per entry of \<open>timeCols\<close>, in order, with Time_Interval the text of the
  header row's cell in that column. A row with no owner or no current date does not reach
  the loop and gives none; a row that gets its owner from a date cell or a blank cell is a
  DEPARTMENT_TOTAL row and has a current date.
\<close>

theorem row_emission:
  assumes "found (find_header_row_and_cols py data)"
    "start_row (find_header_row_and_cols py data) \<le> i" "i < length data"
  shows "build_db_result py data =
      Inr (header_record #
           concat (map (row_records py data)
                     [start_row (find_header_row_and_cols py data)..<length data])) \<and>
    (\<forall>d. owner_at py data i = Some DEPARTMENT_TOTAL \<and> date_at py data i = Some d \<longrightarrow>
       row_records py data i =
         [[CStr d, CStr DEPARTMENT_TOTAL, CStr ALL_DAY,
           offers_at (data ! i) (timeCols (find_header_row_and_cols py data) ! 0),
           get_val (data ! i) (totalCol (find_header_row_and_cols py data)),
           get_val (data ! i) (warmCol (find_header_row_and_cols py data)),
           get_val (data ! i) (warmOffCol (find_header_row_and_cols py data)),
           get_val (data ! i) (convCol (find_header_row_and_cols py data))]]) \<and>
    (\<forall>ow d. owner_at py data i = Some ow \<and> ow \<noteq> DEPARTMENT_TOTAL \<and>
        date_at py data i = Some d \<longrightarrow>
       row_records py data i =
         map (\<lambda>tc. [CStr d, CStr ow,
                     CStr (str py (data ! nat (rowIdx (find_header_row_and_cols py data)) ! tc)),
                     offers_at (data ! i) tc,
                     get_val (data ! i) (totalCol (find_header_row_and_cols py data)),
                     get_val (data ! i) (warmCol (find_header_row_and_cols py data)),
                     get_val (data ! i) (warmOffCol (find_header_row_and_cols py data)),
                     get_val (data ! i) (convCol (find_header_row_and_cols py data))])
           (timeCols (find_header_row_and_cols py data))) \<and>
    (owner_at py data i = None \<or> date_at py data i = None \<longrightarrow> row_records py data i = []) \<and>
    (\<forall>ow. owner_at py data i = Some ow \<and>
        (is_valid_date_cell py (manager_cell (find_header_row_and_cols py data) (data ! i)) \<or>
         strip (str py (manager_cell (find_header_row_and_cols py data) (data ! i))) = []) \<longrightarrow>
       ow = DEPARTMENT_TOTAL \<and> date_at py data i \<noteq> None)"
proof -
  define h where "h = find_header_row_and_cols py data"
  define row where "row = data ! i"
  note tcs = timeCols_distinct [OF assms(1), folded h_def]
  have flt: "filter (\<lambda>tc. tc = timeCols h ! 0) (timeCols h) = [timeCols h ! 0]"
    using tcs by (simp add: filter_eq_first)
  have rr: "row_records py data i = concat (map (emit_piece py h data row d ow) (timeCols h))"
    if "owner_at py data i = Some ow" "date_at py data i = Some d" for ow d
    using that owner_at_nonempty [OF that(1)] date_at_nonempty [OF assms(2,3) that(2)]
    by (simp add: row_records_eq h_def row_def)
  have el: "concat (map (emit_piece py h data row d ow) (timeCols h)) =
      emit_loop py h data row d ow (timeCols h) []" for d ow
    by (simp only: emit_loop_concat)
  have 1: "row_records py data i =
         [[CStr d, CStr DEPARTMENT_TOTAL, CStr ALL_DAY, offers_at row (timeCols h ! 0),
           get_val row (totalCol h), get_val row (warmCol h),
           get_val row (warmOffCol h), get_val row (convCol h)]]"
    if "owner_at py data i = Some DEPARTMENT_TOTAL \<and> date_at py data i = Some d" for d
    using that rr [of DEPARTMENT_TOTAL d] by (simp add: el emit_loop_total flt)
  have lbl: "time_label h data tc = data ! nat (rowIdx h) ! tc" if "tc \<in> set (timeCols h)" for tc
    using timeCols_in_header_row [OF assms(1), folded h_def, OF that]
    by (simp add: time_label_def)
  have 2: "row_records py data i =
         map (\<lambda>tc. [CStr d, CStr ow, CStr (str py (data ! nat (rowIdx h) ! tc)),
                     offers_at row tc, get_val row (totalCol h), get_val row (warmCol h),
                     get_val row (warmOffCol h), get_val row (convCol h)]) (timeCols h)"
    if "owner_at py data i = Some ow \<and> ow \<noteq> DEPARTMENT_TOTAL \<and> date_at py data i = Some d"
    for ow d
  proof -
    from that rr [of ow d] have "row_records py data i =
        map (\<lambda>tc. [CStr d, CStr ow, CStr (str py (time_label h data tc)),
                     offers_at row tc, get_val row (totalCol h), get_val row (warmCol h),
                     get_val row (warmOffCol h), get_val row (convCol h)]) (timeCols h)"
      by (simp add: el emit_loop_named)
    also have "\<dots> = map (\<lambda>tc. [CStr d, CStr ow, CStr (str py (data ! nat (rowIdx h) ! tc)),
                     offers_at row tc, get_val row (totalCol h), get_val row (warmCol h),
                     get_val row (warmOffCol h), get_val row (convCol h)]) (timeCols h)"
      by (rule map_cong) (simp_all add: lbl)
    finally show ?thesis .
  qed
  have 3: "row_records py data i = []" if "owner_at py data i = None \<or> date_at py data i = None"
    using that by (auto simp: row_records_eq)
  have 4: "ow = DEPARTMENT_TOTAL \<and> date_at py data i \<noteq> None"
    if "owner_at py data i = Some ow \<and>
        (is_valid_date_cell py (manager_cell h row) \<or> strip (str py (manager_cell h row)) = [])"
    for ow
  proof -
    let ?cv = "manager_cell h row"
    have d: "date_at py data i =
        (if is_valid_date_cell py ?cv then cell_text ?cv else date_before py data i)"
      unfolding date_at_def h_def row_def by (rule process_row_date)
    from that have o: "classify_row py h row ?cv (is_valid_date_cell py ?cv) (date_at py data i) =
        Some ow"
      by (simp add: owner_at_def Let_def h_def row_def)
    show ?thesis
    proof (cases "is_valid_date_cell py ?cv")
      case True
      from valid_date_text [OF True] d True have "date_at py data i \<noteq> None" by auto
      moreover from o True have "ow = DEPARTMENT_TOTAL"
        by (auto simp: classify_row_def split: if_splits)
      ultimately show ?thesis by simp
    next
      case False
      with that have "strip (str py ?cv) = []" by simp
      with o False have "ow = DEPARTMENT_TOTAL \<and> truthy (date_at py data i)"
        by (auto simp: classify_row_def split: if_splits)
      then show ?thesis by (cases "date_at py data i") auto
    qed
  qed
  from build_db_result_rows [OF assms(1)] 1 2 3 4 show ?thesis
    unfolding h_def row_def by blast
qed

lemma passed_cell:
  "is_number c \<or> is_blank c \<or> (\<exists>s. s \<noteq> [] \<and> c = CStr s)"
  by (cases c) (auto simp: is_blank_def)

lemma get_val_cases:
  "is_number (get_val row idx) \<or> (\<exists>s. s \<noteq> [] \<and> get_val row idx = CStr s \<and> CStr s \<in> set row)"
proof (cases "idx \<le> - 1 \<or> idx \<ge> int (length row) \<or> is_blank (row ! nat idx)")
  case True
  then show ?thesis by (auto simp: get_val_def)
next
  case False
  then have g: "get_val row idx = row ! nat idx" and n: "nat idx < length row"
    and b: "\<not> is_blank (row ! nat idx)"
    by (auto simp: get_val_def)
  from n have "row ! nat idx \<in> set row" by simp
  with passed_cell [of "row ! nat idx"] g b show ?thesis by auto
qed

lemma offers_at_cases:
  "is_number (offers_at row tc) \<or> (\<exists>s. s \<noteq> [] \<and> offers_at row tc = CStr s \<and> CStr s \<in> set row)"
proof (cases "tc < length row \<and> \<not> is_blank (row ! tc)")
  case True
  then have m: "row ! tc \<in> set row" and o: "offers_at row tc = row ! tc"
    by (simp_all add: offers_at_def)
  from passed_cell [of "row ! tc"] True
  have "is_number (row ! tc) \<or> (\<exists>s. s \<noteq> [] \<and> row ! tc = CStr s)" by blast
  then show ?thesis
  proof
    assume "is_number (row ! tc)"
    with o show ?thesis by simp
  next
    assume "\<exists>s. s \<noteq> [] \<and> row ! tc = CStr s"
    then obtain s where s: "s \<noteq> []" "row ! tc = CStr s" by blast
    with m have "CStr s \<in> set row" by simp
    with s o show ?thesis by simp
  qed
next
  case False
  then show ?thesis by (auto simp: offers_at_def)
qed

text \<open>
  Claim C5, as amended. In every record of row \<open>i\<close>, Offers is the row's cell in some time
  column, or 0 when that cell is blank or absent, and the four aggregate fields are
  \<open>get_val\<close> of the row at the header's columns; \<open>get_val\<close> gives 0 for a missing, blank
  or out-of-range column and the cell unchanged otherwise. So each of the five fields is
  a number, or a non-empty text cell of the row passed through.
\<close>

theorem record_fields:
  assumes "found (find_header_row_and_cols (py :: 'f builtins) data)"
    "start_row (find_header_row_and_cols py data) \<le> i" "i < length data"
    "rec \<in> set (row_records py data i)"
  shows "build_db_result py data =
      Inr (header_record #
           concat (map (row_records py data)
                     [start_row (find_header_row_and_cols py data)..<length data])) \<and>
    (\<exists>tc \<in> set (timeCols (find_header_row_and_cols py data)).
       rec ! 3 = (if tc < length (data ! i) \<and> \<not> is_blank (data ! i ! tc)
                  then data ! i ! tc else CInt 0)) \<and>
    rec ! 4 = get_val (data ! i) (totalCol (find_header_row_and_cols py data)) \<and>
    rec ! 5 = get_val (data ! i) (warmCol (find_header_row_and_cols py data)) \<and>
    rec ! 6 = get_val (data ! i) (warmOffCol (find_header_row_and_cols py data)) \<and>
    rec ! 7 = get_val (data ! i) (convCol (find_header_row_and_cols py data)) \<and>
    (\<forall>(row :: 'f cell list) idx. get_val row idx =
       (if idx \<le> - 1 \<or> idx \<ge> int (length row) \<or> is_blank (row ! nat idx) then CInt 0
        else row ! nat idx)) \<and>
    (\<forall>k \<in> {3, 4, 5, 6, 7}.
       is_number (rec ! k) \<or> (\<exists>s. s \<noteq> [] \<and> rec ! k = CStr s \<and> CStr s \<in> set (data ! i)))"
proof -
  define h where "h = find_header_row_and_cols py data"
  define row where "row = data ! i"
  from assms(4) obtain d ow tc where tc: "tc \<in> set (timeCols h)"
    and r: "rec \<in> set (emit_piece py h data row d ow tc)"
    by (auto simp: row_records_eq h_def row_def split: if_splits)
  note f = emit_piece_fields [OF r]
  have g: "get_val row' idx =
       (if idx \<le> - 1 \<or> idx \<ge> int (length row') \<or> is_blank (row' ! nat idx) then CInt 0
        else row' ! nat idx)" for row' :: "'f cell list" and idx
    by (simp add: get_val_def)
  have n: "\<forall>k \<in> {3, 4, 5, 6, 7}.
       is_number (rec ! k) \<or> (\<exists>s. s \<noteq> [] \<and> rec ! k = CStr s \<and> CStr s \<in> set row)"
    using f offers_at_cases [of row tc] get_val_cases [of row "totalCol h"]
      get_val_cases [of row "warmCol h"] get_val_cases [of row "warmOffCol h"]
      get_val_cases [of row "convCol h"]
    by simp
  from f have o: "\<exists>tc \<in> set (timeCols h).
       rec ! 3 = (if tc < length row \<and> \<not> is_blank (row ! tc) then row ! tc else CInt 0)"
    using tc unfolding offers_at_def by blast
  show ?thesis
    apply (intro conjI)
    subgoal by (rule build_db_result_rows [OF assms(1)])
    subgoal using o [unfolded h_def row_def] .
    subgoal using f [unfolded h_def row_def] by simp
    subgoal using f [unfolded h_def row_def] by simp
    subgoal using f [unfolded h_def row_def] by simp
    subgoal using f [unfolded h_def row_def] by simp
    subgoal using g by blast
    subgoal using n [unfolded row_def] .
    done
qed

lemma forbidden_s_m: "ascii ''s'' \<in> forbidden" "ascii ''m'' \<in> forbidden"
  by (simp_all add: forbidden_def)

lemma lower_ascii:
  assumes "python_like py" "list_all basic_char s"
  shows "str_lower py s = map lower_basic s"
  using assms by (simp add: python_like_def)

lemma s_m_technical:
  assumes "python_like py" "c \<in> {ascii ''S'', ascii ''s'', ascii ''M'', ascii ''m''}"
  shows "strip (str_lower py c) \<in> {ascii ''s'', ascii ''m''} \<and> strip c \<noteq> [] \<and>
         \<not> is_valid_date_cell py (CStr c)"
proof -
  from assms(2) have b: "list_all basic_char c"
    by (auto simp: ascii_def basic_char_def)
  from assms(2) have "strip (map lower_basic c) \<in> {ascii ''s'', ascii ''m''} \<and> strip c = c \<and>
      c \<noteq> [] \<and> length c = 1"
    by (auto simp: ascii_def lower_basic_def strip_def isspace_def)
  with lower_ascii [OF assms(1) b] show ?thesis
    by (auto simp: is_valid_date_cell_iff date_shape_def)
qed

text \<open>
  Claim C10. \<open>is_technical_word\<close> holds exactly when the stripped lowercase text is a
  forbidden word or empty, and \<open>s\<close> and \<open>m\<close> are forbidden words. With Python's
  \<open>str.lower\<close>, the cells S, s, M and m are technical words, and a row below the header
  whose manager-column cell is one of them has no owner and gives no record.
\<close>

theorem technical_word_rows:
  "(strip (str_lower py (str py v)) = ascii ''s'' \<or> strip (str_lower py (str py v)) = ascii ''m''
      \<longrightarrow> is_technical_word py v) \<and>
   (is_technical_word py v \<longleftrightarrow>
      strip (str_lower py (str py v)) \<in> forbidden \<or> strip (str_lower py (str py v)) = []) \<and>
   (python_like py \<and> c \<in> {ascii ''S'', ascii ''s'', ascii ''M'', ascii ''m''} \<longrightarrow>
      is_technical_word py (CStr c)) \<and>
   (python_like py \<and> found (find_header_row_and_cols py data) \<and>
    start_row (find_header_row_and_cols py data) \<le> i \<and> i < length data \<and>
    manager_cell (find_header_row_and_cols py data) (data ! i) = CStr c \<and>
    c \<in> {ascii ''S'', ascii ''s'', ascii ''M'', ascii ''m''} \<longrightarrow>
      owner_at py data i = None \<and> row_records py data i = [] \<and>
      build_db_result py data =
        Inr (header_record #
             concat (map (row_records py data)
                       [start_row (find_header_row_and_cols py data)..<length data])))"
proof -
  have 1: "is_technical_word py v \<longleftrightarrow>
      strip (str_lower py (str py v)) \<in> forbidden \<or> strip (str_lower py (str py v)) = []"
    by (simp add: is_technical_word_def Let_def)
  have 2: "is_technical_word py (CStr c)"
    if "python_like py \<and> c \<in> {ascii ''S'', ascii ''s'', ascii ''M'', ascii ''m''}"
  proof -
    from that s_m_technical [of py c]
    have "strip (str_lower py c) \<in> {ascii ''s'', ascii ''m''}" by blast
    with forbidden_s_m show ?thesis by (auto simp: is_technical_word_def Let_def)
  qed
  have 3: "owner_at py data i = None \<and> row_records py data i = []"
    if "python_like py \<and> manager_cell (find_header_row_and_cols py data) (data ! i) = CStr c \<and>
        c \<in> {ascii ''S'', ascii ''s'', ascii ''M'', ascii ''m''}"
  proof -
    from that 2 have t: "is_technical_word py (CStr c)" by blast
    from that s_m_technical [of py c]
    have n: "strip c \<noteq> []" "\<not> is_valid_date_cell py (CStr c)" by blast+
    from that t n have "owner_at py data i = None"
      by (simp add: owner_at_def Let_def classify_row_def)
    then show ?thesis by (simp add: row_records_eq)
  qed
  show ?thesis
    apply (intro conjI)
    subgoal using 1 forbidden_s_m by auto
    subgoal by (rule 1)
    subgoal using 2 by blast
    subgoal using 3 build_db_result_rows [of py data] by blast
    done
qed

lemma lower_ex:
  assumes "python_like py"
  shows "str_lower py (ascii ''Date'') = ascii ''date''"
    "str_lower py (ascii ''Name'') = ascii ''name''"
    "str_lower py (ascii ''10:00-11:00'') = ascii ''10:00-11:00''"
    "str_lower py kw_total = kw_total"
    "str_lower py (ascii ''Ivan'') = ascii ''ivan''"
  by (subst lower_ascii [OF assms];
      simp add: ascii_def kw_total_def basic_char_def lower_basic_def)+

lemma time_text_ex:
  assumes "python_like py"
  shows "\<not> is_time_text py (ascii ''date'')" "\<not> is_time_text py (ascii ''name'')"
    "is_time_text py (ascii ''10:00-11:00'')" "\<not> is_time_text py kw_total"
  using assms
  by (simp_all add: is_time_text_def ascii_def kw_total_def sublist_code python_like_def)

lemma keywords_ex:
  "\<not> sublist kw_total (ascii ''date'')" "\<not> list_ex (\<lambda>k. sublist k (ascii ''date'')) kw_warm"
  "\<not> list_ex (\<lambda>k. sublist k (ascii ''date'')) kw_warm_off" "\<not> sublist kw_conv (ascii ''date'')"
  "\<not> sublist kw_total (ascii ''name'')" "\<not> list_ex (\<lambda>k. sublist k (ascii ''name'')) kw_warm"
  "\<not> list_ex (\<lambda>k. sublist k (ascii ''name'')) kw_warm_off" "\<not> sublist kw_conv (ascii ''name'')"
  "\<not> sublist kw_total (ascii ''10:00-11:00'')"
  "\<not> list_ex (\<lambda>k. sublist k (ascii ''10:00-11:00'')) kw_warm"
  "\<not> list_ex (\<lambda>k. sublist k (ascii ''10:00-11:00'')) kw_warm_off"
  "\<not> sublist kw_conv (ascii ''10:00-11:00'')"
  "sublist kw_total kw_total" "\<not> list_ex (\<lambda>k. sublist k kw_total) kw_warm"
  "\<not> list_ex (\<lambda>k. sublist k kw_total) kw_warm_off" "\<not> sublist kw_conv kw_total"
  by (simp_all add: ascii_def kw_total_def kw_warm_def kw_warm_off_def kw_conv_def sublist_code)

lemma scan_header_row_ex:
  assumes "python_like py"
  shows "scan_cells py header_row_ex 0 (init_info, False, - 1) =
     (hdr_ex\<lparr>found := False, rowIdx := - 1, managerCol := - 1\<rparr>, True, 2)"
  by (simp add: header_row_ex_def Let_def lower_ex [OF assms] time_text_ex [OF assms]
      keywords_ex init_info_def hdr_ex_def)

lemma find_header_ex:
  assumes "python_like py"
  shows "find_header_row_and_cols py (header_row_ex # rest) = hdr_ex"
proof -
  have "take (min 10 (length (header_row_ex # rest))) (header_row_ex # rest) =
      header_row_ex # take (min 9 (length rest)) rest"
    by (simp add: min_def)
  then show ?thesis
    by (simp add: find_header_row_and_cols_def scan_header_row_ex [OF assms] hdr_ex_def)
qed

lemma ascii_eq_Nil: "ascii s = [] \<longleftrightarrow> s = []"
  by (simp add: ascii_def)

lemma strip_ex:
  "strip [] = []" "strip (ascii ''Ivan'') = ascii ''Ivan''" "strip (ascii ''ivan'') = ascii ''ivan''"
  "strip (ascii ''05.01.2024'') = ascii ''05.01.2024''" "strip (ascii ''S'') = ascii ''S''"
  by (simp_all add: strip_def ascii_def isspace_def)

lemma valid_ex:
  assumes "python_like py"
  shows "is_valid_date_cell py (CStr (ascii ''05.01.2024''))"
    "\<not> is_valid_date_cell py (CStr [])" "\<not> is_valid_date_cell py (CStr (ascii ''Ivan''))"
proof -
  from assms show "is_valid_date_cell py (CStr (ascii ''05.01.2024''))"
    unfolding is_valid_date_cell_iff
    by (simp add: strip_ex date_shape_def) (simp add: ascii_def python_like_def)
  show "\<not> is_valid_date_cell py (CStr [])" "\<not> is_valid_date_cell py (CStr (ascii ''Ivan''))"
    unfolding is_valid_date_cell_iff
    by (simp_all add: strip_ex date_shape_def) (simp add: ascii_def)
qed

lemma technical_ex:
  assumes "python_like py"
  shows "\<not> is_technical_word py (CStr (ascii ''Ivan''))"
  by (simp add: is_technical_word_def Let_def lower_ex [OF assms] strip_ex)
    (simp add: forbidden_def ascii_def)

lemma grid_headers:
  assumes "python_like py"
  shows "find_header_row_and_cols py grid_spec = hdr_ex"
    "find_header_row_and_cols py grid_date = hdr_ex"
    "find_header_row_and_cols py grid_nodate = hdr_ex"
    "find_header_row_and_cols py grid_text = hdr_ex"
  by (simp_all only: grid_spec_def grid_date_def grid_nodate_def grid_text_def
      find_header_ex [OF assms])

lemma build_grid_spec:
  assumes "python_like py"
  shows "build_db_result py grid_spec = Inr [header_record]"
  unfolding build_db_result_def Let_def grid_headers [OF assms]
  by (simp add: hdr_ex_def grid_spec_def process_row_def Let_def classify_row_def
      valid_ex [OF assms] strip_ex)

lemma build_grid_date:
  assumes "python_like py"
  shows "build_db_result py grid_date =
     Inr [header_record,
          [CStr (ascii ''05.01.2024''), CStr (ascii ''DEPARTMENT_TOTAL''), CStr (ascii ''ALL_DAY''),
           CInt 3, CInt 5, CInt 0, CInt 0, CInt 0]]"
  unfolding build_db_result_def Let_def grid_headers [OF assms]
  by (simp add: hdr_ex_def grid_date_def process_row_def Let_def classify_row_def
      valid_ex [OF assms] strip_ex has_data_def safe_num_def is_blank_def get_val_def
      cell_text_def DEPARTMENT_TOTAL_def ALL_DAY_def header_row_ex_def ascii_eq_Nil)

lemma build_grid_text:
  assumes "python_like py"
  shows "build_db_result py grid_text =
     Inr [header_record,
          [CStr (ascii ''05.01.2024''), CStr (ascii ''DEPARTMENT_TOTAL''), CStr (ascii ''ALL_DAY''),
           CInt 3, CInt 5, CInt 0, CInt 0, CInt 0],
          [CStr (ascii ''05.01.2024''), CStr (ascii ''Ivan''), CStr (ascii ''10:00-11:00''),
           CStr (ascii ''n/a''), CStr (ascii ''12,5''), CInt 0, CInt 0, CInt 0]]"
proof -
  have s: "is_technical_word py (CStr (ascii ''S''))" "\<not> is_valid_date_cell py (CStr (ascii ''S''))"
    using s_m_technical [OF assms, of "ascii ''S''"]
    by (simp_all add: is_technical_word_def Let_def forbidden_s_m) (use forbidden_s_m in auto)
  show ?thesis
    unfolding build_db_result_def Let_def grid_headers [OF assms]
    by (simp add: hdr_ex_def grid_text_def process_row_def Let_def classify_row_def
      valid_ex [OF assms] strip_ex has_data_def safe_num_def is_blank_def get_val_def
      cell_text_def DEPARTMENT_TOTAL_def ALL_DAY_def header_row_ex_def ascii_eq_Nil
      technical_ex [OF assms] s)
      (simp add: ascii_def)
qed

lemma start_row_ex: "start_row hdr_ex = 1"
  by (simp add: start_row_def hdr_ex_def)

lemma grid_nodate_row:
  assumes "python_like py"
  shows "date_at py grid_nodate 1 = None" "owner_at py grid_nodate 1 = Some (ascii ''Ivan'')"
proof -
  show d: "date_at py grid_nodate 1 = None"
    unfolding date_at_def date_before_def Let_def grid_headers [OF assms] start_row_ex
    by (simp add: grid_nodate_def process_row_date manager_cell_def hdr_ex_def
        valid_ex [OF assms])
  show "owner_at py grid_nodate 1 = Some (ascii ''Ivan'')"
    unfolding owner_at_def Let_def d grid_headers [OF assms]
    by (simp add: grid_nodate_def manager_cell_def hdr_ex_def classify_row_def
        valid_ex [OF assms] strip_ex technical_ex [OF assms] ascii_eq_Nil)
qed

lemma grid_text_rows:
  assumes "python_like py"
  shows "date_at py grid_text 1 = Some (ascii ''05.01.2024'')"
    "owner_at py grid_text 1 = Some DEPARTMENT_TOTAL"
    "date_at py grid_text 2 = Some (ascii ''05.01.2024'')"
    "owner_at py grid_text 2 = Some (ascii ''Ivan'')"
proof -
  show d1: "date_at py grid_text 1 = Some (ascii ''05.01.2024'')"
    unfolding date_at_def date_before_def Let_def grid_headers [OF assms] start_row_ex
    by (simp add: grid_text_def process_row_date manager_cell_def hdr_ex_def
        valid_ex [OF assms] cell_text_def)
  show "owner_at py grid_text 1 = Some DEPARTMENT_TOTAL"
    unfolding owner_at_def Let_def d1 grid_headers [OF assms]
    by (simp add: grid_text_def manager_cell_def hdr_ex_def classify_row_def
        valid_ex [OF assms] has_data_def safe_num_def is_blank_def)
  have t: "take (Suc 0) (drop 1 (grid_text :: 'a cell list list)) = [grid_text ! 1]"
    by (simp add: grid_text_def)
  show d2: "date_at py grid_text 2 = Some (ascii ''05.01.2024'')"
    unfolding date_at_def date_before_def Let_def grid_headers [OF assms] start_row_ex
    by (simp add: t process_row_date)
      (simp add: grid_text_def manager_cell_def hdr_ex_def valid_ex [OF assms] cell_text_def
        process_row_date)
  show "owner_at py grid_text 2 = Some (ascii ''Ivan'')"
    unfolding owner_at_def Let_def d2 grid_headers [OF assms]
    by (simp add: grid_text_def manager_cell_def hdr_ex_def classify_row_def
        valid_ex [OF assms] strip_ex technical_ex [OF assms] ascii_eq_Nil)
qed

lemma Ivan_not_total: "ascii ''Ivan'' \<noteq> DEPARTMENT_TOTAL"
  by (simp add: DEPARTMENT_TOTAL_def ascii_def)

lemma grid_text_named_records:
  assumes "python_like py"
  shows "row_records py grid_text 2 =
     [[CStr (ascii ''05.01.2024''), CStr (ascii ''Ivan''), CStr (ascii ''10:00-11:00''),
       CStr (ascii ''n/a''), CStr (ascii ''12,5''), CInt 0, CInt 0, CInt 0]]"
  unfolding row_records_eq grid_text_rows [OF assms] grid_headers [OF assms]
  by (simp add: ascii_eq_Nil hdr_ex_def emit_piece_def Ivan_not_total time_label_def
      offers_at_def get_val_def is_blank_def grid_text_def header_row_ex_def)

lemma found_ex: "found hdr_ex" "timeCols hdr_ex = [2]" "managerCol hdr_ex = 1" "rowIdx hdr_ex = 0"
  "totalCol hdr_ex = 3" "warmCol hdr_ex = - 1" "warmOffCol hdr_ex = - 1" "convCol hdr_ex = - 1"
  by (simp_all add: hdr_ex_def)

lemma grid_lengths: "length grid_text = 4" "length grid_nodate = 2"
  by (simp_all add: grid_text_def grid_nodate_def)

theorem row_emission_witness:
  "row_records ref_builtins grid_text 1 =
     [[CStr (ascii ''05.01.2024''), CStr DEPARTMENT_TOTAL, CStr ALL_DAY,
       CInt 3, CInt 5, CInt 0, CInt 0, CInt 0]] \<and>
   row_records ref_builtins grid_text 2 =
     [[CStr (ascii ''05.01.2024''), CStr (ascii ''Ivan''), CStr (ascii ''10:00-11:00''),
       CStr (ascii ''n/a''), CStr (ascii ''12,5''), CInt 0, CInt 0, CInt 0]] \<and>
   row_records ref_builtins grid_nodate 1 = []"
proof -
  note h = grid_headers(4) [OF python_like_ref]
  note r = grid_text_rows [OF python_like_ref]
  have f: "found (find_header_row_and_cols ref_builtins grid_text)" by (simp add: h found_ex)
  have s: "start_row (find_header_row_and_cols ref_builtins grid_text) \<le> 1"
    "start_row (find_header_row_and_cols ref_builtins grid_text) \<le> 2"
    by (simp_all add: h start_row_ex)
  have l: "1 < length (grid_text :: decimal cell list list)"
    "2 < length (grid_text :: decimal cell list list)"
    by (simp_all add: grid_lengths)
  note e1 = row_emission [OF f s(1) l(1), THEN conjunct2, THEN conjunct1, rule_format,
      OF conjI [OF r(2) r(1)]]
  note e2 = row_emission [OF f s(2) l(2), THEN conjunct2, THEN conjunct2, THEN conjunct1, rule_format,
      OF conjI [OF r(4) conjI [OF Ivan_not_total r(3)]]]
  have 1: "row_records ref_builtins grid_text 1 =
     [[CStr (ascii ''05.01.2024''), CStr DEPARTMENT_TOTAL, CStr ALL_DAY,
       CInt 3, CInt 5, CInt 0, CInt 0, CInt 0]]"
    unfolding e1 h
    by (simp add: found_ex grid_text_def offers_at_def get_val_def is_blank_def)
  have 2: "row_records ref_builtins grid_text 2 =
     [[CStr (ascii ''05.01.2024''), CStr (ascii ''Ivan''), CStr (ascii ''10:00-11:00''),
       CStr (ascii ''n/a''), CStr (ascii ''12,5''), CInt 0, CInt 0, CInt 0]]"
    unfolding e2 h
    by (simp add: found_ex grid_text_def offers_at_def get_val_def is_blank_def
        header_row_ex_def ascii_eq_Nil)
  have f': "found (find_header_row_and_cols ref_builtins grid_nodate)"
    by (simp add: grid_headers(3) [OF python_like_ref] found_ex)
  have s': "start_row (find_header_row_and_cols ref_builtins grid_nodate) \<le> 1"
    by (simp add: grid_headers(3) [OF python_like_ref] start_row_ex)
  have l': "1 < length (grid_nodate :: decimal cell list list)"
    by (simp add: grid_lengths)
  note 3 = row_emission [OF f' s' l', THEN conjunct2, THEN conjunct2, THEN conjunct2,
      THEN conjunct1, rule_format, OF disjI2 [OF grid_nodate_row(1) [OF python_like_ref]]]
  from 1 2 3 show ?thesis by (intro conjI)
qed

theorem record_date_invariant_witness:
  "\<exists>j. 1 \<le> j \<and> j \<le> 2 \<and>
     is_valid_date_cell ref_builtins (manager_cell hdr_ex (grid_text ! j)) \<and>
     (CStr (ascii ''05.01.2024'') :: decimal cell) = manager_cell hdr_ex (grid_text ! j) \<and>
     (\<forall>k. j < k \<and> k \<le> 2 \<longrightarrow>
        \<not> is_valid_date_cell ref_builtins (manager_cell hdr_ex (grid_text ! k)))"
proof -
  note h = grid_headers(4) [OF python_like_ref]
  have f: "found (find_header_row_and_cols ref_builtins grid_text)" by (simp add: h found_ex)
  let ?rec = "[CStr (ascii ''05.01.2024''), CStr (ascii ''Ivan''), CStr (ascii ''10:00-11:00''),
       CStr (ascii ''n/a''), CStr (ascii ''12,5''), CInt 0, CInt 0, CInt 0] :: decimal cell list"
  have m: "start_row (find_header_row_and_cols ref_builtins grid_text) \<le> 2 \<and>
      2 < length (grid_text :: decimal cell list list) \<and>
      ?rec \<in> set (row_records ref_builtins grid_text 2)"
    by (simp add: h start_row_ex grid_lengths grid_text_named_records [OF python_like_ref])
  note e = record_date_invariant [OF f, THEN conjunct2, THEN conjunct1, rule_format, OF m]
  have z: "?rec ! 0 = CStr (ascii ''05.01.2024'')" by simp
  from e show ?thesis unfolding h start_row_ex z .
qed

text \<open>
  Claim C5 as stated fails: in \<open>grid_text\<close> the row of Ivan holds text in its time column
  and its total column, and the record carries both texts as Offers and Total_Day_Offers.
\<close>

theorem text_fields_counterexample:
  "build_db_result ref_builtins grid_text =
     Inr [header_record,
          [CStr (ascii ''05.01.2024''), CStr (ascii ''DEPARTMENT_TOTAL''), CStr (ascii ''ALL_DAY''),
           CInt 3, CInt 5, CInt 0, CInt 0, CInt 0],
          [CStr (ascii ''05.01.2024''), CStr (ascii ''Ivan''), CStr (ascii ''10:00-11:00''),
           CStr (ascii ''n/a''), CStr (ascii ''12,5''), CInt 0, CInt 0, CInt 0]] \<and>
   \<not> is_number (CStr (ascii ''n/a'') :: decimal cell) \<and>
   \<not> is_number (CStr (ascii ''12,5'') :: decimal cell)"
  using build_grid_text [OF python_like_ref] by simp

theorem record_fields_witness:
  "get_val (grid_text ! 2) (totalCol hdr_ex) = (CStr (ascii ''12,5'') :: decimal cell) \<and>
   get_val (grid_text ! 2) (convCol hdr_ex) = (CInt 0 :: decimal cell)"
proof -
  note h = grid_headers(4) [OF python_like_ref]
  have f: "found (find_header_row_and_cols ref_builtins grid_text)" by (simp add: h found_ex)
  let ?rec = "[CStr (ascii ''05.01.2024''), CStr (ascii ''Ivan''), CStr (ascii ''10:00-11:00''),
       CStr (ascii ''n/a''), CStr (ascii ''12,5''), CInt 0, CInt 0, CInt 0] :: decimal cell list"
  have s: "start_row (find_header_row_and_cols ref_builtins grid_text) \<le> 2"
    by (simp add: h start_row_ex)
  have l: "2 < length (grid_text :: decimal cell list list)" by (simp add: grid_lengths)
  have m: "?rec \<in> set (row_records ref_builtins grid_text 2)"
    by (simp add: grid_text_named_records [OF python_like_ref])
  note e = record_fields [OF f s l m, unfolded h]
  note e4 = e [THEN conjunct2, THEN conjunct2, THEN conjunct1]
  note e7 = e [THEN conjunct2, THEN conjunct2, THEN conjunct2, THEN conjunct2, THEN conjunct2,
      THEN conjunct1]
  have "?rec ! 4 = CStr (ascii ''12,5'')" "?rec ! 7 = CInt 0" by simp_all
  then show ?thesis unfolding e4 e7 by (rule conjI)
qed

theorem technical_word_rows_witness:
  "is_technical_word ref_builtins (CStr (ascii ''S'')) \<and>
   owner_at ref_builtins grid_text 3 = None \<and> row_records ref_builtins grid_text 3 = []"
proof -
  note h = grid_headers(4) [OF python_like_ref]
  have a: "python_like ref_builtins \<and> ascii ''S'' \<in> {ascii ''S'', ascii ''s'', ascii ''M'', ascii ''m''}"
    using python_like_ref by simp
  have b: "python_like ref_builtins \<and> found (find_header_row_and_cols ref_builtins grid_text) \<and>
    start_row (find_header_row_and_cols ref_builtins grid_text) \<le> 3 \<and>
    3 < length (grid_text :: decimal cell list list) \<and>
    manager_cell (find_header_row_and_cols ref_builtins grid_text) (grid_text ! 3) =
      CStr (ascii ''S'') \<and>
    ascii ''S'' \<in> {ascii ''S'', ascii ''s'', ascii ''M'', ascii ''m''}"
    using python_like_ref
    by (simp add: h found_ex start_row_ex grid_lengths manager_cell_def)
      (simp add: grid_text_def)
  note t = technical_word_rows [of ref_builtins _ "ascii ''S''" grid_text 3]
  note t1 = t [THEN conjunct2, THEN conjunct2, THEN conjunct1, rule_format, OF a]
  note t2 = t [THEN conjunct2, THEN conjunct2, THEN conjunct2, rule_format, OF b]
  from t1 t2 [THEN conjunct1] t2 [THEN conjunct2, THEN conjunct1]
  show ?thesis by (intro conjI)
qed

text \<open>
  Claim C3 as stated fails: in \<open>grid_spec\<close> the header row is row 0, the only time column
  is column 2 and the manager column is column 1; the data row has its date in column 0
  and a blank manager cell, so no date is set and the table holds the header record only.
\<close>

theorem spec_example_counterexample:
  "(grid_spec :: decimal cell list list) ! 1 = [CStr (ascii ''05.01.2024''), CStr [], CInt 3, CInt 5] \<and>
   rowIdx (find_header_row_and_cols ref_builtins grid_spec) = 0 \<and>
   timeCols (find_header_row_and_cols ref_builtins grid_spec) = [2] \<and>
   managerCol (find_header_row_and_cols ref_builtins grid_spec) = 1 \<and>
   totalCol (find_header_row_and_cols ref_builtins grid_spec) = 3 \<and>
   grid_spec ! 0 ! 2 = (CStr (ascii ''10:00-11:00'') :: decimal cell) \<and>
   build_db_result ref_builtins grid_spec = Inr [header_record]"
  using grid_headers(1) [OF python_like_ref] build_grid_spec [OF python_like_ref]
  by (simp add: found_ex) (simp add: grid_spec_def header_row_ex_def)

text \<open>
  Claim C3, as amended. With the same header and the date in the manager column, the data
  row \<open>["", "05.01.2024", 3, 5]\<close> gives exactly one record:
  \<open>["05.01.2024", "DEPARTMENT_TOTAL", "ALL_DAY", 3, 5, 0, 0, 0]\<close>.
\<close>

theorem dated_example:
  assumes "python_like (py :: 'f builtins)"
  shows "rowIdx (find_header_row_and_cols py grid_date) = 0 \<and>
   timeCols (find_header_row_and_cols py grid_date) = [2] \<and>
   managerCol (find_header_row_and_cols py grid_date) = 1 \<and>
   totalCol (find_header_row_and_cols py grid_date) = 3 \<and>
   grid_date ! 0 ! 2 = (CStr (ascii ''10:00-11:00'') :: 'f cell) \<and>
   (grid_date :: 'f cell list list) ! 1 = [CStr [], CStr (ascii ''05.01.2024''), CInt 3, CInt 5] \<and>
   build_db_result py grid_date =
     Inr [header_record,
          [CStr (ascii ''05.01.2024''), CStr (ascii ''DEPARTMENT_TOTAL''), CStr (ascii ''ALL_DAY''),
           CInt 3, CInt 5, CInt 0, CInt 0, CInt 0]]"
  using grid_headers(2) [OF assms] build_grid_date [OF assms]
  by (simp add: found_ex) (simp add: grid_date_def header_row_ex_def)

theorem dated_example_witness:
  "build_db_result ref_builtins grid_date =
     Inr [header_record,
          [CStr (ascii ''05.01.2024''), CStr (ascii ''DEPARTMENT_TOTAL''), CStr (ascii ''ALL_DAY''),
           CInt 3, CInt 5, CInt 0, CInt 0, CInt 0]]"
  using dated_example [OF python_like_ref, THEN conjunct2, THEN conjunct2, THEN conjunct2,
      THEN conjunct2, THEN conjunct2, THEN conjunct2] .

end
